theory Spec2Isabelle
  imports Complex_Main "HOL-Library.Log_Nat"
begin

section \<open>The measurement provider\<close>

text \<open>
  The pagination engine of \<^verbatim>\<open>pageCalculations\<close> reads the rendered layout through DOM
  calls. The layout is data of the model: a rectangle per element, the text nodes below
  a block in document order, the bottom edge of the last client rectangle of a range, and
  the answer of the caret probe. Pixel values are JavaScript numbers; they are modelled
  as reals, and the engine adds them exactly. Where the exact value of a sum matters the
  engine is given a second time, with the addition as a parameter, and run with the
  addition of IEEE doubles. Character offsets and document positions are integers.
\<close>

record domRect =
  rect_left :: real
  rect_top :: real
  rect_right :: real
  rect_bottom :: real

definition rect_width :: "domRect \<Rightarrow> real" where
  "rect_width r = rect_right r - rect_left r"

definition rect_height :: "domRect \<Rightarrow> real" where
  "rect_height r = rect_bottom r - rect_top r"

text \<open>A \<^verbatim>\<open>Text\<close> node: its identity and its \<^verbatim>\<open>data\<close>, a sequence of UTF-16 code units.\<close>

record textNode =
  tid :: nat
  data :: "nat list"

text \<open>
  A block element (a member of \<^verbatim>\<open>root.querySelectorAll(blockSelector)\<close>).
  \<open>rangeBottom t k\<close> is the viewport \<^verbatim>\<open>bottom\<close> of the last rectangle of
  \<^verbatim>\<open>getClientRects()\<close> for the range from the start of the block to offset \<open>k\<close> of
  \<open>t\<close>, and \<open>None\<close> when the range has no rectangles. \<open>caretProbe x y\<close> is the
  result of \<^verbatim>\<open>normalizeCaretToTextPosition(block, caretPositionFromPoint(x, y))\<close>,
  \<open>None\<close> standing for \<^verbatim>\<open>null\<close> at either step.
\<close>

record block =
  elem :: nat
  boundingClientRect :: domRect
  textNodes :: "textNode list"
  rangeBottom :: "textNode \<Rightarrow> nat \<Rightarrow> real option"
  caretProbe :: "real \<Rightarrow> real \<Rightarrow> (textNode \<times> int) option"

record root =
  rootRect :: domRect
  scrollTop :: real
  scrollHeight :: real
  querySelectorAll :: "string \<Rightarrow> block list"

text \<open>The value of \<^verbatim>\<open>measureBlockToTextOffsetBottomY\<close>: a number or \<^verbatim>\<open>-Infinity\<close>.\<close>

datatype measured = NegativeInfinity | Px real

text \<open>\<^verbatim>\<open>bottom <= boundaryY\<close> and \<^verbatim>\<open>bottom > boundaryY\<close> for a finite boundary.\<close>

fun measured_le :: "measured \<Rightarrow> real \<Rightarrow> bool" where
  "measured_le NegativeInfinity b = True"
| "measured_le (Px y) b = (y \<le> b)"

fun measured_gt :: "measured \<Rightarrow> real \<Rightarrow> bool" where
  "measured_gt NegativeInfinity b = False"
| "measured_gt (Px y) b = (y > b)"

section \<open>The pagination engine\<close>

datatype pageBreakAnchor =
    BeforeElement (element: nat) (pageStartY: real)
  | TextOffset (textNode: textNode) (offset: int) (pageStartY: real)

record paginationResult =
  pageHeightPx :: real
  topMarginPx :: real
  bottomMarginPx :: real
  pageGapPx :: real
  pageStridePx :: real
  breaks :: "pageBreakAnchor list"
  contentHeightPx :: real

record paginateOptions =
  opt_pageHeightPx :: real
  opt_topMarginPx :: "real option"
  opt_bottomMarginPx :: "real option"
  opt_pageGapPx :: "real option"
  opt_blockSelector :: "string option"
  opt_maxBinarySearchSteps :: "nat option"

definition DEFAULT_BLOCK_SELECTOR :: string where
  "DEFAULT_BLOCK_SELECTOR = ''p,h1,h2,h3,li,blockquote,pre''"

definition getRootLocalY :: "root \<Rightarrow> real \<Rightarrow> real" where
  "getRootLocalY rt viewportY = viewportY - rect_top (rootRect rt) + scrollTop rt"

definition getElementTopBottomY :: "root \<Rightarrow> block \<Rightarrow> real \<times> real" where
  "getElementTopBottomY rt el =
     (let r = boundingClientRect el
      in (getRootLocalY rt (rect_top r), getRootLocalY rt (rect_bottom r)))"

definition isVisibleElement :: "block \<Rightarrow> bool" where
  "isVisibleElement el =
     (let rect = boundingClientRect el in rect_width rect > 0 \<and> rect_height rect > 0)"

text \<open>
  The code units that the regular expression \<^verbatim>\<open>\s\<close> and \<^verbatim>\<open>String.prototype.trim\<close>
  treat as white space (ECMAScript \<^verbatim>\<open>WhiteSpace\<close> and \<^verbatim>\<open>LineTerminator\<close>).
\<close>

definition isWhiteSpace :: "nat \<Rightarrow> bool" where
  "isWhiteSpace c =
     (c \<in> {9, 10, 11, 12, 13, 32, 160, 5760, 8232, 8233, 8239, 8287, 12288, 65279}
      \<or> (8192 \<le> c \<and> c \<le> 8202))"

text \<open>
  \<^verbatim>\<open>walkTextNodes\<close>: the text nodes below a node, in document order, without the
  empty and the white-space-only ones.
\<close>

definition acceptNode :: "textNode \<Rightarrow> bool" where
  "acceptNode n = (\<not> (data n = [] \<or> list_all isWhiteSpace (data n)))"

definition walkTextNodes :: "block \<Rightarrow> textNode list" where
  "walkTextNodes b = filter acceptNode (textNodes b)"

definition measureBlockToTextOffsetBottomY ::
  "root \<Rightarrow> block \<Rightarrow> textNode \<Rightarrow> int \<Rightarrow> measured" where
  "measureBlockToTextOffsetBottomY rt b t off =
     (case rangeBottom b t (nat (max 0 (min off (int (length (data t)))))) of
        None \<Rightarrow> NegativeInfinity
      | Some lastBottom \<Rightarrow> Px (getRootLocalY rt lastBottom))"

subsection \<open>Binary search inside a text node\<close>

text \<open>
  The search loop of \<^verbatim>\<open>binarySearchSplitOffset\<close>, over the state \<open>(lo, hi, best, steps)\<close>.
  \<^verbatim>\<open>(lo + hi) >> 1\<close> is the floor of the half for the non-negative sums below \<open>2^31\<close>
  that string lengths allow.
\<close>

function searchLoop ::
  "(int \<Rightarrow> measured) \<Rightarrow> real \<Rightarrow> nat \<Rightarrow> int \<Rightarrow> int \<Rightarrow> int \<Rightarrow> nat \<Rightarrow> int" where
  "searchLoop bottomAt boundaryY maxSteps lo hi best steps =
     (if lo \<le> hi \<and> steps < maxSteps then
        (let mid = (lo + hi) div 2 in
         if measured_le (bottomAt mid) boundaryY
         then searchLoop bottomAt boundaryY maxSteps (mid + 1) hi mid (steps + 1)
         else searchLoop bottomAt boundaryY maxSteps lo (mid - 1) best (steps + 1))
      else best)"
  by pat_completeness auto
termination
  by (relation "measure (\<lambda>(bottomAt, boundaryY, maxSteps, lo, hi, best, steps). maxSteps - steps)")
     auto

definition maxBacktrack :: nat where
  "maxBacktrack = 40"

text \<open>\<^verbatim>\<open>data.charAt(i)\<close> tested against \<^verbatim>\<open>/\s/\<close>; out of range the string is empty.\<close>

definition whiteSpaceAt :: "nat list \<Rightarrow> int \<Rightarrow> bool" where
  "whiteSpaceAt d i = (0 \<le> i \<and> i < int (length d) \<and> isWhiteSpace (d ! nat i))"

text \<open>The backtracking loop, over the state \<open>(refined, back)\<close>.\<close>

function backtrackLoop :: "nat list \<Rightarrow> int \<Rightarrow> nat \<Rightarrow> int" where
  "backtrackLoop d refined back =
     (if refined > 0 \<and> back < maxBacktrack then
        (if whiteSpaceAt d (refined - 1) then refined
         else backtrackLoop d (refined - 1) (back + 1))
      else refined)"
  by pat_completeness auto
termination
  by (relation "measure (\<lambda>(d, refined, back). maxBacktrack - back)") auto

declare searchLoop.simps [simp del] backtrackLoop.simps [simp del]

text \<open>The tail of \<^verbatim>\<open>binarySearchSplitOffset\<close>, from the raw offset \<open>best\<close>.\<close>

definition refineOffset :: "nat list \<Rightarrow> int \<Rightarrow> int" where
  "refineOffset d best =
     (let refined = backtrackLoop d best 0
      in if refined \<le> 0 then best else refined)"

definition binarySearchSplitOffset ::
  "root \<Rightarrow> block \<Rightarrow> textNode \<Rightarrow> real \<Rightarrow> nat \<Rightarrow> int" where
  "binarySearchSplitOffset rt b t boundaryY maxSteps =
     (let firstCharBottom = measureBlockToTextOffsetBottomY rt b t 1 in
      if measured_gt firstCharBottom boundaryY then 0
      else
        (let best = searchLoop (measureBlockToTextOffsetBottomY rt b t) boundaryY maxSteps
                      0 (int (length (data t))) 0 0
         in refineOffset (data t) best))"

subsection \<open>Finding a split point inside a block\<close>

text \<open>
  The fast path of \<^verbatim>\<open>findSplitPointWithinBlock\<close>: the caret probe one pixel above
  the boundary, accepted when the position it names fits above the boundary and is not
  offset 0.
\<close>

definition caretFastPath :: "root \<Rightarrow> block \<Rightarrow> real \<Rightarrow> (textNode \<times> int) option" where
  "caretFastPath rt b boundaryY =
     (let rootR = rootRect rt;
          blockRect = boundingClientRect b;
          viewportY = rect_top rootR - scrollTop rt + boundaryY - 1;
          viewportX = max (rect_left blockRect + 2)
                          (min (rect_right blockRect - 2) (rect_right rootR - 2))
      in case caretProbe b viewportX viewportY of
           None \<Rightarrow> None
         | Some (t, off) \<Rightarrow>
             (let bottom = measureBlockToTextOffsetBottomY rt b t off
              in if measured_le bottom boundaryY \<and> off > 0 then Some (t, off) else None))"

text \<open>
  The fallback: the \<^verbatim>\<open>for\<close> loop over \<^verbatim>\<open>walkTextNodes(block)\<close>, with
  \<^verbatim>\<open>previousTextNode\<close> as an argument.
\<close>

fun scanTextNodes ::
  "root \<Rightarrow> block \<Rightarrow> real \<Rightarrow> nat \<Rightarrow> textNode option \<Rightarrow> textNode list
   \<Rightarrow> (textNode \<times> int) option" where
  "scanTextNodes rt b boundaryY maxSteps previousTextNode [] = None"
| "scanTextNodes rt b boundaryY maxSteps previousTextNode (t # ts) =
     (let endBottom = measureBlockToTextOffsetBottomY rt b t (int (length (data t))) in
      if measured_le endBottom boundaryY
      then scanTextNodes rt b boundaryY maxSteps (Some t) ts
      else
        (let off = binarySearchSplitOffset rt b t boundaryY maxSteps in
         if off \<le> 0 then
           (case previousTextNode of
              Some p \<Rightarrow> Some (p, int (length (data p)))
            | None \<Rightarrow> None)
         else Some (t, off)))"

definition findSplitPointWithinBlock ::
  "root \<Rightarrow> block \<Rightarrow> real \<Rightarrow> nat \<Rightarrow> (textNode \<times> int) option" where
  "findSplitPointWithinBlock rt b boundaryY maxBinarySearchSteps =
     (case caretFastPath rt b boundaryY of
        Some normalized \<Rightarrow> Some normalized
      | None \<Rightarrow> scanTextNodes rt b boundaryY maxBinarySearchSteps None (walkTextNodes b))"

subsection \<open>The main loop\<close>

text \<open>
  The inner loop of \<^verbatim>\<open>computePageBreaks\<close>,
  \<^verbatim>\<open>while (top >= currentPageBottom) { breaks.push(...); currentPageBottom += pageStridePx }\<close>,
  over the state \<open>(currentPageBottom, breaks)\<close>. It may run forever (a stride that is not
  positive): then the value is \<open>None\<close>.
\<close>

partial_function (option) skipPages ::
  "real \<Rightarrow> real \<Rightarrow> nat \<Rightarrow> real \<Rightarrow> pageBreakAnchor list \<Rightarrow> (real \<times> pageBreakAnchor list) option"
  where
  "skipPages topY stride el currentPageBottom brs =
     (if topY \<ge> currentPageBottom
      then skipPages topY stride el (currentPageBottom + stride)
             (brs @ [BeforeElement el currentPageBottom])
      else Some (currentPageBottom, brs))"

declare skipPages.simps [code]

text \<open>The \<^verbatim>\<open>for\<close> loop over the visible blocks.\<close>

fun blocksLoop ::
  "root \<Rightarrow> real \<Rightarrow> nat \<Rightarrow> block list \<Rightarrow> real \<Rightarrow> pageBreakAnchor list
   \<Rightarrow> (real \<times> pageBreakAnchor list) option" where
  "blocksLoop rt stride maxSteps [] currentPageBottom brs = Some (currentPageBottom, brs)"
| "blocksLoop rt stride maxSteps (b # bs) currentPageBottom brs =
     (case getElementTopBottomY rt b of (topY, bottomY) \<Rightarrow>
        if bottomY \<le> currentPageBottom
        then blocksLoop rt stride maxSteps bs currentPageBottom brs
        else
          (case skipPages topY stride (elem b) currentPageBottom brs of
             None \<Rightarrow> None
           | Some (boundary, brs') \<Rightarrow>
               (case findSplitPointWithinBlock rt b boundary maxSteps of
                  Some (t, off) \<Rightarrow>
                    blocksLoop rt stride maxSteps bs (boundary + stride)
                      (brs' @ [TextOffset t off boundary])
                | None \<Rightarrow>
                    blocksLoop rt stride maxSteps bs (boundary + stride)
                      (brs' @ [BeforeElement (elem b) boundary]))))"

text \<open>\<^verbatim>\<open>v ?? d\<close>: the default for an option that is not given.\<close>

definition orDefault :: "'a option \<Rightarrow> 'a \<Rightarrow> 'a" where
  "orDefault v d = (case v of None \<Rightarrow> d | Some x \<Rightarrow> x)"

text \<open>\<^verbatim>\<open>Array.from(root.querySelectorAll(blockSelector)).filter(isVisibleElement)\<close>\<close>

definition visibleBlocks :: "root \<Rightarrow> paginateOptions \<Rightarrow> block list" where
  "visibleBlocks rt options =
     filter isVisibleElement
       (querySelectorAll rt (orDefault (opt_blockSelector options) DEFAULT_BLOCK_SELECTOR))"

text \<open>
  \<^verbatim>\<open>pageStridePx\<close>, and the first value of \<^verbatim>\<open>currentPageBottom\<close>,
  \<^verbatim>\<open>topMarginPx + pageHeightPx\<close>.
\<close>

definition strideOf :: "paginateOptions \<Rightarrow> real" where
  "strideOf options =
     opt_pageHeightPx options + orDefault (opt_topMarginPx options) 0
       + orDefault (opt_bottomMarginPx options) 0 + orDefault (opt_pageGapPx options) 0"

definition firstPageBottom :: "paginateOptions \<Rightarrow> real" where
  "firstPageBottom options = orDefault (opt_topMarginPx options) 0 + opt_pageHeightPx options"

text \<open>\<^verbatim>\<open>computePageBreaks\<close>; \<open>None\<close> when the call does not return.\<close>

definition computePageBreaks :: "root \<Rightarrow> paginateOptions \<Rightarrow> paginationResult option" where
  "computePageBreaks rt options =
     (let maxBinarySearchSteps = orDefault (opt_maxBinarySearchSteps options) 18;
          blocks = visibleBlocks rt options
      in case blocksLoop rt (strideOf options) maxBinarySearchSteps blocks
                (firstPageBottom options) [] of
           None \<Rightarrow> None
         | Some (currentPageBottom, brs) \<Rightarrow>
             Some \<lparr>pageHeightPx = opt_pageHeightPx options,
                   topMarginPx = orDefault (opt_topMarginPx options) 0,
                   bottomMarginPx = orDefault (opt_bottomMarginPx options) 0,
                   pageGapPx = orDefault (opt_pageGapPx options) 0,
                   pageStridePx = strideOf options,
                   breaks = brs,
                   contentHeightPx = scrollHeight rt\<rparr>)"

section \<open>Vocabulary for the properties of the engine\<close>

text \<open>The page boundaries \<open>base, base + stride, \<dots>\<close>: the first \<open>n\<close> of them.\<close>

definition boundaries :: "real \<Rightarrow> real \<Rightarrow> nat \<Rightarrow> real list" where
  "boundaries base stride n = map (\<lambda>i. base + real i * stride) [0..<n]"


text \<open>
  \<^verbatim>\<open>normalizeCaretToTextPosition\<close> answers \<^verbatim>\<open>null\<close> unless
  \<^verbatim>\<open>block.contains(caret.node)\<close>: the probe of a block names text nodes of that block
  only.
\<close>

definition probeInsideBlock :: "block \<Rightarrow> bool" where
  "probeInsideBlock b =
     (\<forall>x y t off. caretProbe b x y = Some (t, off) \<longrightarrow> t \<in> set (textNodes b))"

text \<open>
  The break pushed after the inner loop, at the boundary the block is taken to cross: a
  text split when \<^verbatim>\<open>findSplitPointWithinBlock\<close> finds one, the whole block otherwise.
\<close>

definition closingBreak :: "root \<Rightarrow> block \<Rightarrow> real \<Rightarrow> nat \<Rightarrow> pageBreakAnchor" where
  "closingBreak rt b boundary ms =
     (case findSplitPointWithinBlock rt b boundary ms of
        Some (t, off) \<Rightarrow> TextOffset t off boundary
      | None \<Rightarrow> BeforeElement (elem b) boundary)"






section \<open>Layouts used as examples\<close>

definition plainRoot :: "block list \<Rightarrow> root" where
  "plainRoot bs =
     \<lparr>rootRect = \<lparr>rect_left = 0, rect_top = 0, rect_right = 816, rect_bottom = 3000\<rparr>,
      scrollTop = 0, scrollHeight = 3000, querySelectorAll = (\<lambda>sel. bs)\<rparr>"

text \<open>A block without text (an image in a paragraph) between two viewport ordinates.\<close>

definition imageBlock :: "nat \<Rightarrow> real \<Rightarrow> real \<Rightarrow> block" where
  "imageBlock e y0 y1 =
     \<lparr>elem = e,
      boundingClientRect = \<lparr>rect_left = 0, rect_top = y0, rect_right = 816, rect_bottom = y1\<rparr>,
      textNodes = [],
      rangeBottom = (\<lambda>t k. None),
      caretProbe = (\<lambda>x y. None)\<rparr>"

definition letterOptions :: paginateOptions where
  "letterOptions =
     \<lparr>opt_pageHeightPx = 864, opt_topMarginPx = None, opt_bottomMarginPx = None,
      opt_pageGapPx = None, opt_blockSelector = None, opt_maxBinarySearchSteps = None\<rparr>"

definition letterResult :: "pageBreakAnchor list \<Rightarrow> paginationResult" where
  "letterResult brs =
     \<lparr>pageHeightPx = 864, topMarginPx = 0, bottomMarginPx = 0, pageGapPx = 0,
      pageStridePx = 864, breaks = brs, contentHeightPx = 3000\<rparr>"

text \<open>A block that starts below the second page boundary and has no text.\<close>

definition farBlock :: block where
  "farBlock = imageBlock 7 2000 2700"

text \<open>
  A text node of sixty letters \<open>a\<close> in a block whose first fifty letters end above
  ordinate 20 and whose last ten end below it.
\<close>

definition longWord :: textNode where
  "longWord = \<lparr>tid = 1, data = replicate 60 97\<rparr>"

definition longWordBlock :: block where
  "longWordBlock =
     \<lparr>elem = 1,
      boundingClientRect = \<lparr>rect_left = 0, rect_top = 0, rect_right = 816, rect_bottom = 30\<rparr>,
      textNodes = [longWord],
      rangeBottom = (\<lambda>t k. Some (if k \<le> 50 then 10 else 30)),
      caretProbe = (\<lambda>x y. None)\<rparr>"

text \<open>A block with text nodes and no caret probe.\<close>

definition textBlock :: "nat \<Rightarrow> real \<Rightarrow> real \<Rightarrow> textNode list \<Rightarrow> (textNode \<Rightarrow> nat \<Rightarrow> real option) \<Rightarrow> block" where
  "textBlock e y0 y1 ts rb =
     \<lparr>elem = e,
      boundingClientRect = \<lparr>rect_left = 0, rect_top = y0, rect_right = 816, rect_bottom = y1\<rparr>,
      textNodes = ts,
      rangeBottom = rb,
      caretProbe = (\<lambda>x y. None)\<rparr>"

text \<open>
  Scenario A: three paragraphs of 300 pixels each. The third holds the text
  \<open>hello world\<close>, whose first six characters end above the boundary 864.
\<close>

definition helloWorld :: textNode where
  "helloWorld = \<lparr>tid = 3, data = [104, 101, 108, 108, 111, 32, 119, 111, 114, 108, 100]\<rparr>"

definition firstParagraph :: block where
  "firstParagraph = textBlock 1 0 300 [\<lparr>tid = 1, data = [111, 110, 101]\<rparr>] (\<lambda>t k. Some 300)"

definition secondParagraph :: block where
  "secondParagraph = textBlock 2 300 600 [\<lparr>tid = 2, data = [116, 119, 111]\<rparr>] (\<lambda>t k. Some 600)"

definition thirdParagraph :: block where
  "thirdParagraph = textBlock 3 600 900 [helloWorld] (\<lambda>t k. Some (if k \<le> 6 then 700 else 900))"

definition scenarioA :: root where
  "scenarioA = plainRoot [firstParagraph, secondParagraph, thirdParagraph]"

text \<open>Scenario A with a third paragraph that has no text.\<close>

definition scenarioImage :: root where
  "scenarioImage = plainRoot [firstParagraph, secondParagraph, imageBlock 3 600 900]"













section \<open>The break projection plugin\<close>

text \<open>
  The \<^verbatim>\<open>Pagination\<close> extension: two commands that put a \<^verbatim>\<open>PaginationMeta\<close> on a
  transaction, and a plugin state that holds the spacer decorations.
\<close>

record paginationMeta =
  breakPositions :: "int list"
  topSpacerPx :: real
  betweenSpacerPx :: real
  bottomSpacerPx :: real

text \<open>
  A widget decoration as the plugin makes it: its position, the class of its element, the
  height it puts into \<^verbatim>\<open>--pm-spacer-height\<close>, and its \<^verbatim>\<open>side\<close>.
\<close>

record decoration =
  pos :: int
  className :: string
  spacerHeightPx :: real
  side :: int

type_synonym decorationSet = "decoration list"

text \<open>
  Modelled from the spec: the transaction of the editor library, whose code is not part of
  the sources, reduced to what the plugin reads. \<open>meta\<close> is
  \<^verbatim>\<open>tr.getMeta(paginationPluginKey)\<close>; \<open>mapping\<close> is \<^verbatim>\<open>tr.mapping\<close>, which maps an old
  document position to its new position, or signals deletion (\<open>None\<close>).
\<close>

record transaction =
  meta :: "paginationMeta option"
  mapping :: "int \<Rightarrow> int option"

record editorState =
  docContentSize :: int

record pluginState =
  decorations :: decorationSet

text \<open>
  What a command does: the value it returns, the transaction after \<^verbatim>\<open>setMeta\<close>, and
  the transaction handed to \<^verbatim>\<open>dispatch\<close> when a dispatch function is given.
\<close>

record commandResult =
  returned :: bool
  transactionAfter :: transaction
  dispatched :: "transaction option"

definition setPaginationBreaks ::
  "int list \<Rightarrow> real \<Rightarrow> real \<Rightarrow> real \<Rightarrow> transaction \<Rightarrow> bool \<Rightarrow> commandResult" where
  "setPaginationBreaks positions topPx betweenPx bottomPx tr dispatch =
     (let m = \<lparr>breakPositions = positions, topSpacerPx = topPx,
                betweenSpacerPx = betweenPx, bottomSpacerPx = bottomPx\<rparr>;
          tr' = tr\<lparr>meta := Some m\<rparr>
      in \<lparr>returned = True, transactionAfter = tr',
          dispatched = (if dispatch then Some tr' else None)\<rparr>)"

definition clearPaginationBreaks :: "transaction \<Rightarrow> bool \<Rightarrow> commandResult" where
  "clearPaginationBreaks tr dispatch =
     (let m = \<lparr>breakPositions = [], topSpacerPx = 0, betweenSpacerPx = 0, bottomSpacerPx = 0\<rparr>;
          tr' = tr\<lparr>meta := Some m\<rparr>
      in \<lparr>returned = True, transactionAfter = tr',
          dispatched = (if dispatch then Some tr' else None)\<rparr>)"

text \<open>
  Modelled from the spec: \<^verbatim>\<open>DecorationSet\<close> belongs to the editor library, whose code is
  not part of the sources. A set is the list of its decorations, and
  \<^verbatim>\<open>DecorationSet.empty\<close> has none.
\<close>

definition DecorationSet_empty :: decorationSet where
  "DecorationSet_empty = []"

text \<open>
  Modelled from the spec: \<^verbatim>\<open>DecorationSet.create\<close> of the editor library makes the
  fresh spacer set out of the decorations it is given.
\<close>

definition DecorationSet_create :: "decoration list \<Rightarrow> decorationSet" where
  "DecorationSet_create ds = ds"

text \<open>
  Modelled from the spec: \<^verbatim>\<open>DecorationSet.map\<close> of the editor library remaps the position
  of every spacer through the position mapping, preserving their heights and relative
  order, and drops any spacer whose position the mapping deletes.
\<close>

definition DecorationSet_map :: "(int \<Rightarrow> int option) \<Rightarrow> decorationSet \<Rightarrow> decorationSet" where
  "DecorationSet_map f ds =
     List.map_filter (\<lambda>d. case f (pos d) of None \<Rightarrow> None | Some p \<Rightarrow> Some (d\<lparr>pos := p\<rparr>)) ds"

definition widget :: "int \<Rightarrow> string \<Rightarrow> real \<Rightarrow> int \<Rightarrow> decoration" where
  "widget p cls h sd = \<lparr>pos = p, className = cls, spacerHeightPx = h, side = sd\<rparr>"

text \<open>\<^verbatim>\<open>Math.max(0, Math.min(p, newState.doc.content.size))\<close>\<close>

definition clampPosition :: "int \<Rightarrow> int \<Rightarrow> int" where
  "clampPosition docSize p = max 0 (min p docSize)"

text \<open>\<^verbatim>\<open>.filter((p, i, arr) => i === 0 || p !== arr[i - 1])\<close>\<close>

definition dropAdjacentEqual :: "int list \<Rightarrow> int list" where
  "dropAdjacentEqual arr =
     map fst (filter (\<lambda>(p, i). i = 0 \<or> p \<noteq> arr ! (i - 1)) (zip arr [0..<length arr]))"

text \<open>The \<^verbatim>\<open>init\<close> and \<^verbatim>\<open>apply\<close> of the plugin state.\<close>

definition pluginInit :: pluginState where
  "pluginInit = \<lparr>decorations = DecorationSet_empty\<rparr>"

definition pluginApply ::
  "transaction \<Rightarrow> pluginState \<Rightarrow> editorState \<Rightarrow> editorState \<Rightarrow> pluginState" where
  "pluginApply tr prev oldState newState =
     (let mapped = DecorationSet_map (mapping tr) (decorations prev) in
      case meta tr of
        None \<Rightarrow> \<lparr>decorations = mapped\<rparr>
      | Some m \<Rightarrow>
          (let clamped = dropAdjacentEqual
                           (map (clampPosition (docContentSize newState)) (breakPositions m));
               ds = (if topSpacerPx m > 0
                     then [widget 0 ''pm-page-top-spacer'' (topSpacerPx m) (- 1)] else [])
                  @ (if bottomSpacerPx m > 0
                     then [widget (docContentSize newState) ''pm-page-bottom-spacer''
                             (bottomSpacerPx m) 1]
                     else [])
                  @ concat (map (\<lambda>p. if betweenSpacerPx m \<le> 0 then []
                                       else [widget p ''pm-page-break'' (betweenSpacerPx m) (- 1)])
                                clamped)
           in \<lparr>decorations = DecorationSet_create ds\<rparr>))"

text \<open>Transactions and spacers used as examples; the document has 20 positions.\<close>

definition exampleMeta :: paginationMeta where
  "exampleMeta = \<lparr>breakPositions = [5, 5, 99, - 3], topSpacerPx = 96,
                   betweenSpacerPx = 212, bottomSpacerPx = 96\<rparr>"

definition setBreaksTransaction :: transaction where
  "setBreaksTransaction = \<lparr>meta = Some exampleMeta, mapping = (\<lambda>p. Some p)\<rparr>"

definition exampleSpacers :: decorationSet where
  "exampleSpacers =
     [widget 0 ''pm-page-top-spacer'' 96 (- 1),
      widget 20 ''pm-page-bottom-spacer'' 96 1,
      widget 5 ''pm-page-break'' 212 (- 1),
      widget 20 ''pm-page-break'' 212 (- 1),
      widget 0 ''pm-page-break'' 212 (- 1)]"

definition editTransaction :: transaction where
  "editTransaction =
     \<lparr>meta = None,
      mapping = (\<lambda>p. if p < 3 then Some p else if p < 8 then None else Some (p + 4))\<rparr>"

definition noopTransaction :: transaction where
  "noopTransaction = \<lparr>meta = None, mapping = (\<lambda>p. Some p)\<rparr>"

section \<open>The reactive scheduler\<close>

text \<open>
  The hook \<^verbatim>\<open>usePagination\<close> with the browser it runs in. The browser's pending
  \<^verbatim>\<open>setTimeout\<close> callbacks (identifier and due time, in milliseconds) and pending
  \<^verbatim>\<open>requestAnimationFrame\<close> callbacks are state of the model, next to the refs of the
  hook. \<open>computeCalls\<close> records the time of every call of \<^verbatim>\<open>computePageBreaks\<close>
  (the \<^verbatim>\<open>setResult\<close> in the frame callback).
\<close>

record scheduler =
  now :: nat
  nextId :: nat
  timeouts :: "(nat \<times> nat) list"
  animationFrames :: "nat list"
  hasRoot :: bool
  debounceMs :: nat
  destroyedRef :: bool
  timeoutIdRef :: "nat option"
  rafIdRef :: "nat option"
  computeCalls :: "nat list"

definition setTimeout :: "nat \<Rightarrow> scheduler \<Rightarrow> nat \<times> scheduler" where
  "setTimeout delay s =
     (nextId s, s\<lparr>timeouts := timeouts s @ [(nextId s, now s + delay)], nextId := nextId s + 1\<rparr>)"

definition clearTimeout :: "nat \<Rightarrow> scheduler \<Rightarrow> scheduler" where
  "clearTimeout i s = s\<lparr>timeouts := filter (\<lambda>(j, due). j \<noteq> i) (timeouts s)\<rparr>"

definition requestAnimationFrame :: "scheduler \<Rightarrow> nat \<times> scheduler" where
  "requestAnimationFrame s =
     (nextId s, s\<lparr>animationFrames := animationFrames s @ [nextId s], nextId := nextId s + 1\<rparr>)"

definition cancelAnimationFrame :: "nat \<Rightarrow> scheduler \<Rightarrow> scheduler" where
  "cancelAnimationFrame i s = s\<lparr>animationFrames := filter (\<lambda>j. j \<noteq> i) (animationFrames s)\<rparr>"

text \<open>The callback given to \<^verbatim>\<open>requestAnimationFrame\<close> in \<^verbatim>\<open>recomputeNow\<close>.\<close>

definition frameCallback :: "scheduler \<Rightarrow> scheduler" where
  "frameCallback s =
     (let s1 = s\<lparr>rafIdRef := None\<rparr>
      in if destroyedRef s1 then s1
         else s1\<lparr>computeCalls := computeCalls s1 @ [now s1]\<rparr>)"

definition recomputeNow :: "scheduler \<Rightarrow> scheduler" where
  "recomputeNow s =
     (if \<not> hasRoot s then s
      else if destroyedRef s then s
      else
        (let s1 = (case rafIdRef s of Some i \<Rightarrow> cancelAnimationFrame i s | None \<Rightarrow> s);
             (i, s2) = requestAnimationFrame s1
         in s2\<lparr>rafIdRef := Some i\<rparr>))"

text \<open>The callback given to \<^verbatim>\<open>setTimeout\<close> in \<^verbatim>\<open>scheduleRecompute\<close>.\<close>

definition timeoutCallback :: "scheduler \<Rightarrow> scheduler" where
  "timeoutCallback s = recomputeNow (s\<lparr>timeoutIdRef := None\<rparr>)"

definition scheduleRecompute :: "scheduler \<Rightarrow> scheduler" where
  "scheduleRecompute s =
     (if \<not> hasRoot s then s
      else if destroyedRef s then s
      else
        (let s1 = (case timeoutIdRef s of Some i \<Rightarrow> clearTimeout i s | None \<Rightarrow> s);
             (i, s2) = setTimeout (debounceMs s1) s1
         in s2\<lparr>timeoutIdRef := Some i\<rparr>))"

text \<open>The cleanup function of the effect.\<close>

definition cleanup :: "scheduler \<Rightarrow> scheduler" where
  "cleanup s =
     (let s1 = s\<lparr>destroyedRef := True\<rparr>;
          s2 = (case timeoutIdRef s1 of
                  Some i \<Rightarrow> (clearTimeout i s1)\<lparr>timeoutIdRef := None\<rparr>
                | None \<Rightarrow> s1)
      in case rafIdRef s2 of
           Some i \<Rightarrow> (cancelAnimationFrame i s2)\<lparr>rafIdRef := None\<rparr>
         | None \<Rightarrow> s2)"

text \<open>
  What happens to the hook: a change notification (the resize observer or the editor's
  update event, both call \<^verbatim>\<open>scheduleRecompute\<close>), the passing of \<open>d\<close> milliseconds,
  after which the browser runs the timeout callbacks that are due, a rendering frame, in
  which it runs the pending frame callbacks, and teardown.
\<close>

datatype event = Change | Wait nat | Frame | Teardown

definition fireDueTimeouts :: "scheduler \<Rightarrow> scheduler" where
  "fireDueTimeouts s =
     fold (\<lambda>(i, due) s'. timeoutCallback (clearTimeout i s'))
          (filter (\<lambda>(i, due). due \<le> now s) (timeouts s)) s"

definition runAnimationFrames :: "scheduler \<Rightarrow> scheduler" where
  "runAnimationFrames s =
     fold (\<lambda>i s'. frameCallback s') (animationFrames s) (s\<lparr>animationFrames := []\<rparr>)"

fun step :: "event \<Rightarrow> scheduler \<Rightarrow> scheduler" where
  "step Change s = scheduleRecompute s"
| "step (Wait d) s = fireDueTimeouts (s\<lparr>now := now s + d\<rparr>)"
| "step Frame s = runAnimationFrames s"
| "step Teardown s = cleanup s"

definition run :: "event list \<Rightarrow> scheduler \<Rightarrow> scheduler" where
  "run evs s = fold step evs s"

text \<open>The hook at rest, with a root and nothing pending.\<close>

definition idle :: "nat \<Rightarrow> scheduler" where
  "idle d =
     \<lparr>now = 0, nextId = 1, timeouts = [], animationFrames = [], hasRoot = True,
      debounceMs = d, destroyedRef = False, timeoutIdRef = None, rafIdRef = None,
      computeCalls = []\<rparr>"

text \<open>
  At most one timeout and at most one frame callback are pending, and they are the ones
  the refs name.
\<close>

definition oneInFlight :: "scheduler \<Rightarrow> bool" where
  "oneInFlight s =
     ((case timeoutIdRef s of
         None \<Rightarrow> timeouts s = []
       | Some i \<Rightarrow> (\<exists>due. timeouts s = [(i, due)]))
      \<and> (case rafIdRef s of
            None \<Rightarrow> animationFrames s = []
          | Some i \<Rightarrow> animationFrames s = [i]))"

text \<open>Five change notifications, \<open>g1\<close>, \<open>g2\<close>, \<open>g3\<close> and \<open>g4\<close> milliseconds apart.\<close>

definition burst :: "nat \<Rightarrow> nat \<Rightarrow> nat \<Rightarrow> nat \<Rightarrow> event list" where
  "burst g1 g2 g3 g4 = [Change, Wait g1, Change, Wait g2, Change, Wait g3, Change, Wait g4, Change]"

section \<open>The engine with the addition of JavaScript numbers\<close>

text \<open>
  A JavaScript number is an IEEE 754 double: every finite one is an integer multiple of
  \<open>2^-1074\<close> with at most 53 significant bits. \<open>roundToDouble n\<close> rounds the
  multiple \<open>n\<close> of \<open>2^-1074\<close> to 53 significant bits, to the nearest, ties to the even
  mantissa. A result of magnitude \<open>2^1024\<close> or more stands for an infinity.
\<close>

definition roundToDouble :: "int \<Rightarrow> int" where
  "roundToDouble n =
     (let k = bitlen \<bar>n\<bar> - 53 in
      if k \<le> 0 then n
      else
        (let q = n div 2 ^ nat k; r = n mod 2 ^ nat k; half = 2 ^ nat (k - 1)
         in (if r > half \<or> (r = half \<and> odd q) then q + 1 else q) * 2 ^ nat k))"

definition gridBits :: nat where
  "gridBits = 1074"

text \<open>
  \<^verbatim>\<open>x + y\<close> on two doubles: the exact sum, a multiple of \<open>2^-1074\<close>, rounded.
\<close>

definition jsAdd :: "real \<Rightarrow> real \<Rightarrow> real" where
  "jsAdd x y =
     real_of_int (roundToDouble (\<lfloor>x * 2 ^ gridBits\<rfloor> + \<lfloor>y * 2 ^ gridBits\<rfloor>)) / 2 ^ gridBits"

text \<open>
  The inner loop, the loop over the blocks and \<^verbatim>\<open>computePageBreaks\<close> once more, with
  the addition of \<^verbatim>\<open>currentPageBottom += pageStridePx\<close>,
  \<^verbatim>\<open>pageHeightPx + topMarginPx + bottomMarginPx + pageGapPx\<close> and
  \<^verbatim>\<open>topMarginPx + pageHeightPx\<close> as the parameter \<open>add\<close>. At the exact addition
  this is the engine above (\<open>computePageBreaksWith_exact\<close>); at \<open>jsAdd\<close> it adds
  as the code does. The ordinates of the blocks and the splitter are layout data as
  before: the boundaries of the breaks are sums of the configuration only.
\<close>

partial_function (option) skipPagesWith ::
  "(real \<Rightarrow> real \<Rightarrow> real) \<Rightarrow> real \<Rightarrow> real \<Rightarrow> nat \<Rightarrow> real \<Rightarrow> pageBreakAnchor list
   \<Rightarrow> (real \<times> pageBreakAnchor list) option"
  where
  "skipPagesWith add topY stride el currentPageBottom brs =
     (if topY \<ge> currentPageBottom
      then skipPagesWith add topY stride el (add currentPageBottom stride)
             (brs @ [BeforeElement el currentPageBottom])
      else Some (currentPageBottom, brs))"

declare skipPagesWith.simps [code]

fun blocksLoopWith ::
  "(real \<Rightarrow> real \<Rightarrow> real) \<Rightarrow> root \<Rightarrow> real \<Rightarrow> nat \<Rightarrow> block list \<Rightarrow> real
   \<Rightarrow> pageBreakAnchor list \<Rightarrow> (real \<times> pageBreakAnchor list) option" where
  "blocksLoopWith add rt stride maxSteps [] currentPageBottom brs = Some (currentPageBottom, brs)"
| "blocksLoopWith add rt stride maxSteps (b # bs) currentPageBottom brs =
     (case getElementTopBottomY rt b of (topY, bottomY) \<Rightarrow>
        if bottomY \<le> currentPageBottom
        then blocksLoopWith add rt stride maxSteps bs currentPageBottom brs
        else
          (case skipPagesWith add topY stride (elem b) currentPageBottom brs of
             None \<Rightarrow> None
           | Some (boundary, brs') \<Rightarrow>
               (case findSplitPointWithinBlock rt b boundary maxSteps of
                  Some (t, off) \<Rightarrow>
                    blocksLoopWith add rt stride maxSteps bs (add boundary stride)
                      (brs' @ [TextOffset t off boundary])
                | None \<Rightarrow>
                    blocksLoopWith add rt stride maxSteps bs (add boundary stride)
                      (brs' @ [BeforeElement (elem b) boundary]))))"

definition computePageBreaksWith ::
  "(real \<Rightarrow> real \<Rightarrow> real) \<Rightarrow> root \<Rightarrow> paginateOptions \<Rightarrow> paginationResult option" where
  "computePageBreaksWith add rt options =
     (let pageHeight = opt_pageHeightPx options;
          topMargin = orDefault (opt_topMarginPx options) 0;
          bottomMargin = orDefault (opt_bottomMarginPx options) 0;
          pageGap = orDefault (opt_pageGapPx options) 0;
          pageStride = add (add (add pageHeight topMargin) bottomMargin) pageGap;
          maxBinarySearchSteps = orDefault (opt_maxBinarySearchSteps options) 18;
          blocks = visibleBlocks rt options
      in case blocksLoopWith add rt pageStride maxBinarySearchSteps blocks
                (add topMargin pageHeight) [] of
           None \<Rightarrow> None
         | Some (currentPageBottom, brs) \<Rightarrow>
             Some \<lparr>pageHeightPx = pageHeight,
                   topMarginPx = topMargin,
                   bottomMarginPx = bottomMargin,
                   pageGapPx = pageGap,
                   pageStridePx = pageStride,
                   breaks = brs,
                   contentHeightPx = scrollHeight rt\<rparr>)"

text \<open>The boundaries \<open>base, add base stride, \<dots>\<close>: the first \<open>n\<close> of them.\<close>

definition accumulated :: "(real \<Rightarrow> real \<Rightarrow> real) \<Rightarrow> real \<Rightarrow> real \<Rightarrow> nat \<Rightarrow> real list" where
  "accumulated add stride base n = map (\<lambda>i. ((\<lambda>c. add c stride) ^^ i) base) [0..<n]"

text \<open>
  The double nearest to 0.1 as page height, without margins or gap, and the result of
  the code for one image block from 0.75 to 1.
\<close>

definition tenth :: real where
  "tenth = 3602879701896397 / 36028797018963968"

definition tenthOptions :: paginateOptions where
  "tenthOptions =
     \<lparr>opt_pageHeightPx = tenth, opt_topMarginPx = None, opt_bottomMarginPx = None,
      opt_pageGapPx = None, opt_blockSelector = None, opt_maxBinarySearchSteps = None\<rparr>"

definition tenthBreaks :: "pageBreakAnchor list" where
  "tenthBreaks =
     [BeforeElement 1 (3602879701896397 / 36028797018963968),
      BeforeElement 1 (3602879701896397 / 18014398509481984),
      BeforeElement 1 (1351079888211149 / 4503599627370496),
      BeforeElement 1 (3602879701896397 / 9007199254740992),
      BeforeElement 1 (1 / 2),
      BeforeElement 1 (5404319552844595 / 9007199254740992),
      BeforeElement 1 (3152519739159347 / 4503599627370496),
      BeforeElement 1 (7205759403792793 / 9007199254740992)]"

definition tenthResult :: paginationResult where
  "tenthResult =
     \<lparr>pageHeightPx = tenth, topMarginPx = 0, bottomMarginPx = 0, pageGapPx = 0,
      pageStridePx = tenth, breaks = tenthBreaks, contentHeightPx = 3000\<rparr>"

section \<open>Properties of the main loop\<close>

lemma upt_0_Suc_front: "[0..<Suc n] = 0 # map Suc [0..<n]"
proof -
  have "[0..<Suc n] = 0 # [Suc 0..<Suc n]"
    by (rule upt_conv_Cons) simp
  also have "[Suc 0..<Suc n] = map Suc [0..<n]"
    by (simp only: map_Suc_upt)
  finally show ?thesis .
qed

lemma boundaries_0: "boundaries base stride 0 = []"
  by (simp add: boundaries_def)

lemma boundaries_Suc_front:
  "boundaries base stride (Suc n) = base # boundaries (base + stride) stride n"
proof -
  have "(\<lambda>i. base + real (Suc i) * stride) = (\<lambda>i. base + stride + real i * stride)"
    by (rule ext) (simp add: distrib_right)
  then show ?thesis
    unfolding boundaries_def upt_0_Suc_front by (simp add: comp_def)
qed

lemma boundaries_length: "length (boundaries base stride n) = n"
  by (simp add: boundaries_def)


lemma skipPages_shape:
  assumes "skipPages topY stride el cpb brs = Some res"
  shows "\<exists>n. fst res = cpb + real n * stride
           \<and> snd res = brs @ map (\<lambda>y. BeforeElement el y) (boundaries cpb stride n)
           \<and> topY < fst res"
  using assms
proof (induction topY stride el cpb brs res rule: skipPages.raw_induct[rotated 1, consumes 1])
  case (1 skp topY stride el cpb brs res)
  show ?case
  proof (cases "topY \<ge> cpb")
    case True
    with 1(2) have "skp topY stride el (cpb + stride) (brs @ [BeforeElement el cpb]) = Some res"
      by simp
    from 1(1)[OF this] obtain n where n: "fst res = cpb + stride + real n * stride"
      "snd res = (brs @ [BeforeElement el cpb]) @ map (\<lambda>y. BeforeElement el y) (boundaries (cpb + stride) stride n)"
      "topY < fst res" by blast
    have a: "fst res = cpb + real (Suc n) * stride"
      using n(1) by (simp add: distrib_right)
    have b: "snd res = brs @ map (\<lambda>y. BeforeElement el y) (boundaries cpb stride (Suc n))"
      using n(2) by (simp only: boundaries_Suc_front list.map append_assoc append_Cons append_Nil)
    from a b n(3) show ?thesis by (intro exI[of _ "Suc n"] conjI)
  next
    case False
    with 1(2) have "res = (cpb, brs)" by simp
    then have "fst res = cpb + real 0 * stride
           \<and> snd res = brs @ map (\<lambda>y. BeforeElement el y) (boundaries cpb stride 0)
           \<and> topY < fst res" using False by (simp add: boundaries_0)
    then show ?thesis by (rule exI)
  qed
qed



lemma closingBreak_pageStartY: "pageStartY (closingBreak rt b boundary ms) = boundary"
  by (simp add: closingBreak_def split: option.splits prod.splits)


lemma blocksLoop_Cons_fits:
  assumes "getElementTopBottomY rt b = (topY, bottomY)" "bottomY \<le> cpb"
  shows "blocksLoop rt stride ms (b # bs) cpb brs = blocksLoop rt stride ms bs cpb brs"
  using assms by simp

lemma blocksLoop_Cons_break:
  assumes "getElementTopBottomY rt b = (topY, bottomY)" "\<not> bottomY \<le> cpb"
    and "skipPages topY stride (elem b) cpb brs = Some (boundary, brs1)"
  shows "blocksLoop rt stride ms (b # bs) cpb brs
         = blocksLoop rt stride ms bs (boundary + stride) (brs1 @ [closingBreak rt b boundary ms])"
  using assms by (simp add: closingBreak_def split: option.splits prod.splits)




text \<open>With a stride that is not positive the inner loop, once entered, never ends.\<close>

lemma skipPages_diverges:
  assumes "stride \<le> 0" "cpb \<le> topY"
  shows "skipPages topY stride el cpb brs = None"
proof (cases "skipPages topY stride el cpb brs")
  case None
  then show ?thesis .
next
  case (Some res)
  from skipPages_shape[OF Some] obtain n where n: "fst res = cpb + real n * stride" "topY < fst res"
    by blast
  have "real n * stride \<le> 0"
    using assms(1) by (simp add: mult_nonneg_nonpos)
  with n assms(2) show ?thesis by simp
qed


lemmas engine_eval =
  computePageBreaks_def visibleBlocks_def orDefault_def strideOf_def firstPageBottom_def
  isVisibleElement_def rect_width_def rect_height_def getElementTopBottomY_def getRootLocalY_def
  findSplitPointWithinBlock_def caretFastPath_def walkTextNodes_def skipPages.simps
  plainRoot_def imageBlock_def letterOptions_def letterResult_def


lemma boundaries_nth: "i < n \<Longrightarrow> boundaries base stride n ! i = base + real i * stride"
  by (simp add: boundaries_def)

lemma boundaries_strictly_increasing:
  assumes "stride > 0"
  shows "sorted_wrt (<) (boundaries base stride n)"
proof -
  have "boundaries base stride n ! i < boundaries base stride n ! j" if "i < j" "j < n" for i j
  proof -
    have "real i * stride < real j * stride"
      using that(1) assms by simp
    then show ?thesis using that by (simp add: boundaries_nth)
  qed
  then show ?thesis
    by (simp add: sorted_wrt_iff_nth_less boundaries_length)
qed

section \<open>A block below two boundaries\<close>


section \<open>Backtracking to white space\<close>

text \<open>
  The loop stops just after the nearest white space when one lies among the
  \<open>maxBacktrack\<close> characters before the raw offset.
\<close>

lemma backtrackLoop_stops_after_space:
  assumes "0 < r" "r \<le> refined" "whiteSpaceAt d (r - 1)"
    and "\<forall>i. r \<le> i \<and> i < refined \<longrightarrow> \<not> whiteSpaceAt d i"
    and "nat (refined - r) + bk < maxBacktrack"
  shows "backtrackLoop d refined bk = r"
  using assms
proof (induction "nat (refined - r)" arbitrary: refined bk)
  case 0
  then have "refined = r" by simp
  with 0 show ?case by (subst backtrackLoop.simps) simp
next
  case (Suc k)
  then have gt: "r < refined" by linarith
  with Suc.prems have nows: "\<not> whiteSpaceAt d (refined - 1)" by simp
  have "backtrackLoop d (refined - 1) (bk + 1) = r"
  proof (rule Suc.hyps(1))
    show "k = nat (refined - 1 - r)" using Suc.hyps(2) by linarith
    show "0 < r" by fact
    show "r \<le> refined - 1" using gt by simp
    show "whiteSpaceAt d (r - 1)" by fact
    show "\<forall>i. r \<le> i \<and> i < refined - 1 \<longrightarrow> \<not> whiteSpaceAt d i" using Suc.prems(4) by simp
    show "nat (refined - 1 - r) + (bk + 1) < maxBacktrack" using Suc.prems(5) gt by linarith
  qed
  moreover have "refined > 0" "bk < maxBacktrack" using gt Suc.prems by linarith+
  ultimately show ?case using nows by (subst backtrackLoop.simps) simp
qed

text \<open>
  Without white space in that window the loop walks back until the window or the text is
  used up.
\<close>

lemma backtrackLoop_without_space:
  assumes "\<forall>i. refined - int (maxBacktrack - bk) \<le> i \<and> i < refined \<longrightarrow> \<not> whiteSpaceAt d i"
    and "0 \<le> refined"
  shows "backtrackLoop d refined bk = max 0 (refined - int (maxBacktrack - bk))"
  using assms
proof (induction d refined bk rule: backtrackLoop.induct)
  case (1 d refined bk)
  show ?case
  proof (cases "refined > 0 \<and> bk < maxBacktrack")
    case True
    then have nows: "\<not> whiteSpaceAt d (refined - 1)" using "1.prems"(1) by simp
    have "backtrackLoop d (refined - 1) (bk + 1)
          = max 0 (refined - 1 - int (maxBacktrack - (bk + 1)))"
    proof (rule "1.IH")
      show "0 < refined \<and> bk < maxBacktrack" by fact
      show "\<not> whiteSpaceAt d (refined - 1)" by fact
      show "\<forall>i. refined - 1 - int (maxBacktrack - (bk + 1)) \<le> i \<and> i < refined - 1
               \<longrightarrow> \<not> whiteSpaceAt d i"
        using "1.prems"(1) True by auto
      show "0 \<le> refined - 1" using True by simp
    qed
    moreover have "refined - 1 - int (maxBacktrack - (bk + 1)) = refined - int (maxBacktrack - bk)"
      using True by linarith
    ultimately show ?thesis using True nows by (subst backtrackLoop.simps) simp
  next
    case False
    then show ?thesis using "1.prems"(2) by (subst backtrackLoop.simps) auto
  qed
qed

lemma refineOffset_after_nearest_space:
  assumes "0 < r" "r \<le> best" "best - r < 40" "whiteSpaceAt d (r - 1)"
    and "\<forall>i. r \<le> i \<and> i < best \<longrightarrow> \<not> whiteSpaceAt d i"
  shows "refineOffset d best = r"
proof -
  have "backtrackLoop d best 0 = r"
    using assms by (intro backtrackLoop_stops_after_space) (simp_all add: maxBacktrack_def)
  with assms(1) show ?thesis by (simp add: refineOffset_def)
qed

lemma refineOffset_start_reached:
  assumes "0 \<le> best" "best \<le> 40"
    and "\<forall>i. 0 \<le> i \<and> i < best \<longrightarrow> \<not> whiteSpaceAt d i"
  shows "refineOffset d best = best"
proof -
  have "backtrackLoop d best 0 = max 0 (best - int (maxBacktrack - 0))"
    using assms by (intro backtrackLoop_without_space) (auto simp: whiteSpaceAt_def)
  with assms show ?thesis by (simp add: refineOffset_def maxBacktrack_def)
qed

lemma refineOffset_window_exhausted:
  assumes "40 < best"
    and "\<forall>i. best - 40 \<le> i \<and> i < best \<longrightarrow> \<not> whiteSpaceAt d i"
  shows "refineOffset d best = best - 40"
proof -
  have "backtrackLoop d best 0 = max 0 (best - int (maxBacktrack - 0))"
    using assms by (intro backtrackLoop_without_space) (simp_all add: maxBacktrack_def)
  with assms show ?thesis by (simp add: refineOffset_def maxBacktrack_def)
qed

lemmas measure_eval =
  measureBlockToTextOffsetBottomY_def getRootLocalY_def plainRoot_def

text \<open>
  Claim C1. The claim asks for the raw offset whenever no white space lies in the
  backtrack window. The code keeps it only when the loop reaches the start of the text
  (\<open>refineOffset_start_reached\<close>); when the window is used up first it answers the
  raw offset less 40 (\<open>refineOffset_window_exhausted\<close>). On the sixty-letter word the
  binary search finds the raw offset 50, no character is white space, and
  \<^verbatim>\<open>binarySearchSplitOffset\<close> answers 10.
\<close>

theorem binarySearchSplitOffset_long_word:
  "searchLoop (measureBlockToTextOffsetBottomY (plainRoot [longWordBlock]) longWordBlock longWord)
      20 18 0 (int (length (data longWord))) 0 0 = 50
   \<and> \<not> list_ex isWhiteSpace (data longWord)
   \<and> binarySearchSplitOffset (plainRoot [longWordBlock]) longWordBlock longWord 20 18 = 10"
  by (simp add: binarySearchSplitOffset_def refineOffset_def maxBacktrack_def whiteSpaceAt_def
      backtrackLoop.simps searchLoop.simps
      isWhiteSpace_def measure_eval longWordBlock_def longWord_def list_ex_iff)

section \<open>Splitting inside a block\<close>

lemmas split_eval =
  binarySearchSplitOffset_def refineOffset_def maxBacktrack_def whiteSpaceAt_def isWhiteSpace_def
  backtrackLoop.simps searchLoop.simps measureBlockToTextOffsetBottomY_def acceptNode_def textBlock_def

declare skipPages.simps [code]
lemma skipPages_above: "topY < cpb \<Longrightarrow> skipPages topY stride el cpb brs = Some (cpb, brs)"
  by (subst skipPages.simps) simp

lemma blocksLoop_Cons_straddles:
  assumes "getElementTopBottomY rt b = (topY, bottomY)" "topY < cpb" "cpb < bottomY"
  shows "blocksLoop rt stride ms (b # bs) cpb brs
         = blocksLoop rt stride ms bs (cpb + stride) (brs @ [closingBreak rt b cpb ms])"
  using assms blocksLoop_Cons_break[OF assms(1) _ skipPages_above[OF assms(2)]] by simp









lemma computePageBreaks_breaks:
  assumes "blocksLoop rt (strideOf options) (orDefault (opt_maxBinarySearchSteps options) 18)
      (visibleBlocks rt options) (firstPageBottom options) [] = Some (cpb, brs)"
  shows "\<exists>r. computePageBreaks rt options = Some r \<and> breaks r = brs"
  using assms by (simp add: computePageBreaks_def)

section \<open>Scenario A\<close>

text \<open>
  Claim C3, as the code has it. With a page height of 864, no margins and no gap, and three
  visible blocks at 0 to 300, 300 to 600 and 600 to 900, the result has exactly one break,
  at \<open>pageStartY = 864\<close>, in the third block: a text split when the splitter finds a
  split point in the third block, and a before-element break of the third block otherwise.
\<close>

theorem scenarioA_single_break:
  assumes "map (getElementTopBottomY rt) (visibleBlocks rt options)
           = [(0, 300), (300, 600), (600, 900)]"
    and "opt_pageHeightPx options = 864"
    and "orDefault (opt_topMarginPx options) 0 = 0"
    and "orDefault (opt_bottomMarginPx options) 0 = 0"
    and "orDefault (opt_pageGapPx options) 0 = 0"
  shows "\<exists>r. computePageBreaks rt options = Some r
           \<and> breaks r =
               [case findSplitPointWithinBlock rt (visibleBlocks rt options ! 2) 864
                       (orDefault (opt_maxBinarySearchSteps options) 18) of
                  Some (t, off) \<Rightarrow> TextOffset t off 864
                | None \<Rightarrow> BeforeElement (elem (visibleBlocks rt options ! 2)) 864]"
proof -
  define ms where "ms = orDefault (opt_maxBinarySearchSteps options) 18"
  from assms(1) obtain p1 p2 p3 where bs: "visibleBlocks rt options = [p1, p2, p3]"
    and g1: "getElementTopBottomY rt p1 = (0, 300)"
    and g2: "getElementTopBottomY rt p2 = (300, 600)"
    and g3: "getElementTopBottomY rt p3 = (600, 900)"
    by (auto simp: map_eq_Cons_conv)
  have stride: "strideOf options = 864" and base: "firstPageBottom options = 864"
    using assms(2-5) by (simp_all add: strideOf_def firstPageBottom_def)
  have "blocksLoop rt 864 ms [p1, p2, p3] 864 [] = blocksLoop rt 864 ms [p2, p3] 864 []"
    by (rule blocksLoop_Cons_fits[OF g1]) simp
  also have "\<dots> = blocksLoop rt 864 ms [p3] 864 []"
    by (rule blocksLoop_Cons_fits[OF g2]) simp
  also have "\<dots> = blocksLoop rt 864 ms [] (864 + 864) ([] @ [closingBreak rt p3 864 ms])"
    by (rule blocksLoop_Cons_straddles[OF g3]) simp_all
  finally have "blocksLoop rt (strideOf options) ms (visibleBlocks rt options) (firstPageBottom options) []
                = Some (864 + 864, [closingBreak rt p3 864 ms])"
    by (simp add: stride base bs)
  note loop = this[unfolded ms_def closingBreak_def]
  have third: "visibleBlocks rt options ! 2 = p3"
    by (simp add: bs)
  show ?thesis
    unfolding third by (rule computePageBreaks_breaks[OF loop])
qed

theorem scenarioA_single_break_witness:
  "map (getElementTopBottomY scenarioImage) (visibleBlocks scenarioImage letterOptions)
     = [(0, 300), (300, 600), (600, 900)]
   \<and> opt_pageHeightPx letterOptions = 864
   \<and> orDefault (opt_topMarginPx letterOptions) 0 = 0
   \<and> orDefault (opt_bottomMarginPx letterOptions) 0 = 0
   \<and> orDefault (opt_pageGapPx letterOptions) 0 = 0
   \<and> computePageBreaks scenarioImage letterOptions = Some (letterResult [BeforeElement 3 864])"
  using scenarioA_single_break[of scenarioImage letterOptions]
  by (simp add: engine_eval split_eval scenarioImage_def firstParagraph_def secondParagraph_def)

text \<open>
  The third paragraph of \<open>scenarioA\<close> has text that fits above the boundary up to
  offset 6: the one break is a text split, not a before-element break.
\<close>

lemma scenarioA_breaks:
  "computePageBreaks scenarioA letterOptions = Some (letterResult [TextOffset helloWorld 6 864])"
  by (simp add: engine_eval split_eval scenarioA_def firstParagraph_def secondParagraph_def
      thirdParagraph_def helloWorld_def)

theorem scenarioA_text_split_counterexample:
  "map (getElementTopBottomY scenarioA) (visibleBlocks scenarioA letterOptions)
     = [(0, 300), (300, 600), (600, 900)]
   \<and> computePageBreaks scenarioA letterOptions = Some (letterResult [TextOffset helloWorld 6 864])
   \<and> breaks (letterResult [TextOffset helloWorld 6 864]) \<noteq> [BeforeElement 3 864]"
  using scenarioA_breaks
  by (simp add: engine_eval textBlock_def scenarioA_def firstParagraph_def secondParagraph_def
      thirdParagraph_def)

section \<open>Termination and the order of the breaks\<close>


lemma paragraph_probe: "probeInsideBlock (textBlock e y0 y1 ts rb)"
  by (simp add: probeInsideBlock_def textBlock_def)













section \<open>Properties of the plugin state\<close>

lemma remdups_adj_snoc:
  "remdups_adj (xs @ [x]) = (if xs \<noteq> [] \<and> last xs = x then remdups_adj xs else remdups_adj xs @ [x])"
  by (induction xs rule: remdups_adj.induct) auto

lemma dropAdjacentEqual_snoc:
  "dropAdjacentEqual (xs @ [x])
   = dropAdjacentEqual xs @ (if xs \<noteq> [] \<and> last xs = x then [] else [x])"
proof -
  let ?n = "length xs"
  let ?P = "\<lambda>arr (p, i). i = 0 \<or> p \<noteq> arr ! (i - 1)"
  have z: "zip (xs @ [x]) [0..<length (xs @ [x])] = zip xs [0..<?n] @ [(x, ?n)]"
    by simp
  have "filter (?P (xs @ [x])) (zip xs [0..<?n]) = filter (?P xs) (zip xs [0..<?n])"
  proof (rule filter_cong[OF refl])
    fix e assume mem: "e \<in> set (zip xs [0..<?n])"
    obtain p i where e: "e = (p, i)" by (cases e)
    from mem e have "i \<in> set [0..<?n]" by (auto dest: set_zip_rightD)
    then have "i - 1 < ?n" by simp
    then have "(xs @ [x]) ! (i - 1) = xs ! (i - 1)"
      by (simp add: nth_append)
    with e show "?P (xs @ [x]) e = ?P xs e" by simp
  qed
  moreover have "?P (xs @ [x]) (x, ?n) = (\<not> (xs \<noteq> [] \<and> last xs = x))"
    by (cases "xs = []") (auto simp: nth_append last_conv_nth)
  ultimately show ?thesis
    unfolding dropAdjacentEqual_def z by simp
qed

lemma dropAdjacentEqual_remdups_adj: "dropAdjacentEqual xs = remdups_adj xs"
proof (induction xs rule: rev_induct)
  case Nil
  show ?case by (simp add: dropAdjacentEqual_def)
next
  case (snoc x xs)
  then show ?case by (simp add: dropAdjacentEqual_snoc remdups_adj_snoc)
qed

lemma between_spacers:
  "concat (map (\<lambda>p. if h \<le> 0 then [] else [w p]) ps) = (if h > (0::real) then map w ps else [])"
  by (induction ps) auto

lemma clampPosition_range: "0 \<le> docSize \<Longrightarrow> 0 \<le> clampPosition docSize p \<and> clampPosition docSize p \<le> docSize"
  by (simp add: clampPosition_def)

lemma pluginApply_with_meta:
  assumes "meta tr = Some m"
  shows "decorations (pluginApply tr prev s0 s1) =
           (if topSpacerPx m > 0
            then [widget 0 ''pm-page-top-spacer'' (topSpacerPx m) (- 1)] else [])
         @ (if bottomSpacerPx m > 0
            then [widget (docContentSize s1) ''pm-page-bottom-spacer'' (bottomSpacerPx m) 1]
            else [])
         @ (if betweenSpacerPx m > 0
            then map (\<lambda>p. widget p ''pm-page-break'' (betweenSpacerPx m) (- 1))
                   (remdups_adj (map (clampPosition (docContentSize s1)) (breakPositions m)))
            else [])"
  using assms
  by (simp add: pluginApply_def Let_def DecorationSet_create_def between_spacers
      dropAdjacentEqual_remdups_adj)

lemmas plugin_eval =
  pluginApply_def DecorationSet_create_def DecorationSet_map_def DecorationSet_empty_def
  dropAdjacentEqual_def clampPosition_def widget_def pluginInit_def List.map_filter_def

text \<open>
  Claim C6. For a transaction that carries a break set, applying it a second time on a
  document of the same length gives the state of the first application. That state does
  not depend on the prior spacers: it is the top spacer at 0 (for a positive top height),
  the bottom spacer at the document length (for a positive bottom height), and (for a
  positive between height) one spacer per position of the list obtained by clamping each
  supplied position into \<open>[0, documentLength]\<close> and removing adjacent equal positions,
  in that order. All its positions are within the document.
\<close>

theorem setBreaks_idempotent:
  assumes "meta tr = Some m" and "docContentSize s2 = docContentSize s1"
  shows "pluginApply tr (pluginApply tr prev s0 s1) s1 s2 = pluginApply tr prev s0 s1
       \<and> decorations (pluginApply tr prev s0 s1) =
           (if topSpacerPx m > 0
            then [widget 0 ''pm-page-top-spacer'' (topSpacerPx m) (- 1)] else [])
         @ (if bottomSpacerPx m > 0
            then [widget (docContentSize s1) ''pm-page-bottom-spacer'' (bottomSpacerPx m) 1]
            else [])
         @ (if betweenSpacerPx m > 0
            then map (\<lambda>p. widget p ''pm-page-break'' (betweenSpacerPx m) (- 1))
                   (remdups_adj (map (\<lambda>p. max 0 (min p (docContentSize s1))) (breakPositions m)))
            else [])
       \<and> (0 \<le> docContentSize s1 \<longrightarrow>
            (\<forall>d\<in>set (decorations (pluginApply tr prev s0 s1)).
               0 \<le> pos d \<and> pos d \<le> docContentSize s1))"
proof (intro conjI impI)
  show "pluginApply tr (pluginApply tr prev s0 s1) s1 s2 = pluginApply tr prev s0 s1"
    using assms by (simp add: pluginApply_def Let_def)
next
  have "clampPosition (docContentSize s1) = (\<lambda>p. max 0 (min p (docContentSize s1)))"
    by (rule ext) (simp add: clampPosition_def)
  then show "decorations (pluginApply tr prev s0 s1) =
           (if topSpacerPx m > 0
            then [widget 0 ''pm-page-top-spacer'' (topSpacerPx m) (- 1)] else [])
         @ (if bottomSpacerPx m > 0
            then [widget (docContentSize s1) ''pm-page-bottom-spacer'' (bottomSpacerPx m) 1]
            else [])
         @ (if betweenSpacerPx m > 0
            then map (\<lambda>p. widget p ''pm-page-break'' (betweenSpacerPx m) (- 1))
                   (remdups_adj (map (\<lambda>p. max 0 (min p (docContentSize s1))) (breakPositions m)))
            else [])"
    using pluginApply_with_meta[OF assms(1), of prev s0 s1] by simp
next
  assume nonneg: "0 \<le> docContentSize s1"
  show "\<forall>d\<in>set (decorations (pluginApply tr prev s0 s1)). 0 \<le> pos d \<and> pos d \<le> docContentSize s1"
  proof
    fix d assume "d \<in> set (decorations (pluginApply tr prev s0 s1))"
    then consider "d = widget 0 ''pm-page-top-spacer'' (topSpacerPx m) (- 1)"
      | "d = widget (docContentSize s1) ''pm-page-bottom-spacer'' (bottomSpacerPx m) 1"
      | p where "d = widget p ''pm-page-break'' (betweenSpacerPx m) (- 1)"
          "p \<in> set (map (clampPosition (docContentSize s1)) (breakPositions m))"
      unfolding pluginApply_with_meta[OF assms(1)] by (auto split: if_splits)
    then show "0 \<le> pos d \<and> pos d \<le> docContentSize s1"
    proof cases
      case 1
      then show ?thesis using nonneg by (simp add: widget_def)
    next
      case 2
      then show ?thesis using nonneg by (simp add: widget_def)
    next
      case 3
      then show ?thesis using clampPosition_range[OF nonneg] by (auto simp: widget_def)
    qed
  qed
qed

theorem setBreaks_idempotent_witness:
  "meta setBreaksTransaction = Some exampleMeta
   \<and> docContentSize \<lparr>docContentSize = 20\<rparr> = docContentSize \<lparr>docContentSize = 20\<rparr>
   \<and> pluginApply setBreaksTransaction
        (pluginApply setBreaksTransaction pluginInit \<lparr>docContentSize = 20\<rparr> \<lparr>docContentSize = 20\<rparr>)
        \<lparr>docContentSize = 20\<rparr> \<lparr>docContentSize = 20\<rparr>
      = pluginApply setBreaksTransaction pluginInit \<lparr>docContentSize = 20\<rparr> \<lparr>docContentSize = 20\<rparr>
   \<and> decorations (pluginApply setBreaksTransaction pluginInit
                     \<lparr>docContentSize = 20\<rparr> \<lparr>docContentSize = 20\<rparr>) = exampleSpacers
   \<and> list_all (\<lambda>d. 0 \<le> pos d \<and> pos d \<le> 20) exampleSpacers"
  using setBreaks_idempotent[of setBreaksTransaction exampleMeta "\<lparr>docContentSize = 20\<rparr>"
          "\<lparr>docContentSize = 20\<rparr>" pluginInit "\<lparr>docContentSize = 20\<rparr>"]
  by (simp add: setBreaksTransaction_def exampleMeta_def exampleSpacers_def widget_def)

text \<open>
  Claim C7. For a transaction without a break set the new state is the old spacer set
  mapped through the transaction's mapping: the spacers whose position the mapping deletes
  are dropped, the others keep their order, height, class and side and take the mapped
  position; under a mapping that moves no position the state is unchanged.
\<close>

theorem remap_without_instruction:
  assumes "meta tr = None"
  shows "decorations (pluginApply tr prev s0 s1) = DecorationSet_map (mapping tr) (decorations prev)
       \<and> map pos (decorations (pluginApply tr prev s0 s1))
           = map (\<lambda>d. the (mapping tr (pos d)))
               (filter (\<lambda>d. mapping tr (pos d) \<noteq> None) (decorations prev))
       \<and> map spacerHeightPx (decorations (pluginApply tr prev s0 s1))
           = map spacerHeightPx (filter (\<lambda>d. mapping tr (pos d) \<noteq> None) (decorations prev))
       \<and> map className (decorations (pluginApply tr prev s0 s1))
           = map className (filter (\<lambda>d. mapping tr (pos d) \<noteq> None) (decorations prev))
       \<and> map side (decorations (pluginApply tr prev s0 s1))
           = map side (filter (\<lambda>d. mapping tr (pos d) \<noteq> None) (decorations prev))
       \<and> ((\<forall>p. mapping tr p = Some p) \<longrightarrow> pluginApply tr prev s0 s1 = prev)"
proof -
  have res: "decorations (pluginApply tr prev s0 s1) = DecorationSet_map (mapping tr) (decorations prev)"
    using assms by (simp add: pluginApply_def)
  have fields: "map pos (DecorationSet_map f ds) = map (\<lambda>d. the (f (pos d))) (filter (\<lambda>d. f (pos d) \<noteq> None) ds)
     \<and> map spacerHeightPx (DecorationSet_map f ds) = map spacerHeightPx (filter (\<lambda>d. f (pos d) \<noteq> None) ds)
     \<and> map className (DecorationSet_map f ds) = map className (filter (\<lambda>d. f (pos d) \<noteq> None) ds)
     \<and> map side (DecorationSet_map f ds) = map side (filter (\<lambda>d. f (pos d) \<noteq> None) ds)" for f ds
    by (induction ds) (auto simp: DecorationSet_map_def List.map_filter_def split: option.splits)
  have noop: "DecorationSet_map f ds = ds" if "\<forall>p. f p = Some p" for f ds
    using that by (induction ds) (simp_all add: DecorationSet_map_def List.map_filter_def)
  have "pluginApply tr prev s0 s1 = prev" if "\<forall>p. mapping tr p = Some p"
    using res noop[OF that, of "decorations prev"] by (cases "pluginApply tr prev s0 s1"; cases prev) simp
  with res fields[of "mapping tr" "decorations prev"] show ?thesis by simp
qed

theorem remap_without_instruction_witness:
  "meta editTransaction = None
   \<and> decorations (pluginApply editTransaction \<lparr>decorations = exampleSpacers\<rparr>
                     \<lparr>docContentSize = 20\<rparr> \<lparr>docContentSize = 24\<rparr>)
       = [widget 0 ''pm-page-top-spacer'' 96 (- 1),
          widget 24 ''pm-page-bottom-spacer'' 96 1,
          widget 24 ''pm-page-break'' 212 (- 1),
          widget 0 ''pm-page-break'' 212 (- 1)]
   \<and> meta noopTransaction = None \<and> (\<forall>p. mapping noopTransaction p = Some p)
   \<and> pluginApply noopTransaction \<lparr>decorations = exampleSpacers\<rparr>
        \<lparr>docContentSize = 20\<rparr> \<lparr>docContentSize = 20\<rparr> = \<lparr>decorations = exampleSpacers\<rparr>"
  using remap_without_instruction[of editTransaction "\<lparr>decorations = exampleSpacers\<rparr>"
          "\<lparr>docContentSize = 20\<rparr>" "\<lparr>docContentSize = 24\<rparr>"]
        remap_without_instruction[of noopTransaction "\<lparr>decorations = exampleSpacers\<rparr>"
          "\<lparr>docContentSize = 20\<rparr>" "\<lparr>docContentSize = 20\<rparr>"]
  by (simp add: editTransaction_def noopTransaction_def exampleSpacers_def plugin_eval)

text \<open>
  Claim C10. \<^verbatim>\<open>clearPaginationBreaks\<close> does what \<^verbatim>\<open>setPaginationBreaks([], 0, 0, 0)\<close>
  does: the same return value, the same meta on the transaction (no positions, heights
  0), the same dispatch; and applying the transaction of either to any plugin state gives
  the empty spacer set.
\<close>

theorem clearBreaks_is_setBreaks_empty:
  "clearPaginationBreaks tr dispatch = setPaginationBreaks [] 0 0 0 tr dispatch
   \<and> meta (transactionAfter (clearPaginationBreaks tr dispatch))
       = Some \<lparr>breakPositions = [], topSpacerPx = 0, betweenSpacerPx = 0, bottomSpacerPx = 0\<rparr>
   \<and> dispatched (clearPaginationBreaks tr dispatch)
       = (if dispatch then Some (transactionAfter (clearPaginationBreaks tr dispatch)) else None)
   \<and> decorations (pluginApply (transactionAfter (clearPaginationBreaks tr dispatch)) prev s0 s1) = []
   \<and> decorations (pluginApply (transactionAfter (setPaginationBreaks [] 0 0 0 tr dispatch)) prev s0 s1) = []"
  by (simp add: clearPaginationBreaks_def setPaginationBreaks_def Let_def pluginApply_def
      DecorationSet_create_def dropAdjacentEqual_def)

theorem clearBreaks_is_setBreaks_empty_witness:
  "clearPaginationBreaks editTransaction True = setPaginationBreaks [] 0 0 0 editTransaction True
   \<and> decorations (pluginApply (transactionAfter (clearPaginationBreaks editTransaction True))
        \<lparr>decorations = exampleSpacers\<rparr> \<lparr>docContentSize = 20\<rparr> \<lparr>docContentSize = 20\<rparr>) = []"
  using clearBreaks_is_setBreaks_empty[of editTransaction True "\<lparr>decorations = exampleSpacers\<rparr>"
          "\<lparr>docContentSize = 20\<rparr>" "\<lparr>docContentSize = 20\<rparr>"]
  by simp

section \<open>Properties of the scheduler\<close>

lemmas sched_defs =
  setTimeout_def clearTimeout_def requestAnimationFrame_def cancelAnimationFrame_def
  frameCallback_def recomputeNow_def timeoutCallback_def scheduleRecompute_def cleanup_def
  fireDueTimeouts_def runAnimationFrames_def

lemma fireDueTimeouts_none: "timeouts s = [] \<Longrightarrow> fireDueTimeouts s = s"
  by (simp add: fireDueTimeouts_def)

lemma fireDueTimeouts_one:
  "timeouts s = [(i, due)] \<Longrightarrow>
   fireDueTimeouts s = (if due \<le> now s then timeoutCallback (clearTimeout i s) else s)"
  by (simp add: fireDueTimeouts_def)

lemma runAnimationFrames_none: "animationFrames s = [] \<Longrightarrow> runAnimationFrames s = s"
  by (simp add: runAnimationFrames_def)

lemma runAnimationFrames_one:
  "animationFrames s = [i] \<Longrightarrow>
   runAnimationFrames s = frameCallback (s\<lparr>animationFrames := []\<rparr>)"
  by (simp add: runAnimationFrames_def)

lemma oneInFlight_scheduleRecompute: "oneInFlight s \<Longrightarrow> oneInFlight (scheduleRecompute s)"
  by (auto simp: oneInFlight_def scheduleRecompute_def setTimeout_def clearTimeout_def
      split: option.splits)

lemma oneInFlight_cleanup: "oneInFlight s \<Longrightarrow> oneInFlight (cleanup s)"
  by (auto simp: oneInFlight_def cleanup_def Let_def clearTimeout_def cancelAnimationFrame_def
      split: option.splits)

lemma oneInFlight_timeout_fires:
  assumes "oneInFlight s" "timeouts s = [(i, due)]"
  shows "oneInFlight (timeoutCallback (clearTimeout i s))"
  using assms
  by (auto simp: oneInFlight_def timeoutCallback_def recomputeNow_def clearTimeout_def
      requestAnimationFrame_def cancelAnimationFrame_def split: option.splits)

lemma oneInFlight_wait:
  assumes "oneInFlight s"
  shows "oneInFlight (fireDueTimeouts (s\<lparr>now := now s + d\<rparr>))"
proof -
  let ?s = "s\<lparr>now := now s + d\<rparr>"
  have inv: "oneInFlight ?s" using assms by (simp add: oneInFlight_def split: option.splits)
  show ?thesis
  proof (cases "timeoutIdRef s")
    case None
    then have "timeouts ?s = []" using assms by (simp add: oneInFlight_def)
    then show ?thesis using inv by (simp only: fireDueTimeouts_none)
  next
    case (Some i)
    then obtain due where t: "timeouts ?s = [(i, due)]"
      using assms by (auto simp: oneInFlight_def)
    show ?thesis
      unfolding fireDueTimeouts_one[OF t]
      using inv oneInFlight_timeout_fires[OF inv t] by simp
  qed
qed

lemma oneInFlight_frame:
  assumes "oneInFlight s"
  shows "oneInFlight (runAnimationFrames s)"
proof (cases "rafIdRef s")
  case None
  then have "animationFrames s = []" using assms by (simp add: oneInFlight_def)
  then show ?thesis using assms by (simp only: runAnimationFrames_none)
next
  case (Some i)
  then have f: "animationFrames s = [i]" using assms by (simp add: oneInFlight_def)
  show ?thesis
    unfolding runAnimationFrames_one[OF f]
    using assms by (auto simp: oneInFlight_def frameCallback_def Let_def split: option.splits)
qed

lemma oneInFlight_step: "oneInFlight s \<Longrightarrow> oneInFlight (step e s)"
  by (cases e)
     (simp_all add: oneInFlight_scheduleRecompute oneInFlight_wait oneInFlight_frame
        oneInFlight_cleanup)

lemma oneInFlight_run: "oneInFlight s \<Longrightarrow> oneInFlight (run evs s)"
  unfolding run_def by (induction evs arbitrary: s) (simp_all add: oneInFlight_step)

lemma oneInFlight_idle: "oneInFlight (idle d)"
  by (simp add: oneInFlight_def idle_def)

lemma oneInFlight_bounds:
  "oneInFlight s \<Longrightarrow> length (timeouts s) \<le> 1 \<and> length (animationFrames s) \<le> 1"
  by (auto simp: oneInFlight_def split: option.splits)

lemma scheduleRecompute_restarts:
  assumes "oneInFlight s" "hasRoot s" "\<not> destroyedRef s"
  shows "timeouts (scheduleRecompute s) = [(nextId s, now s + debounceMs s)]
         \<and> timeoutIdRef (scheduleRecompute s) = Some (nextId s)
         \<and> computeCalls (scheduleRecompute s) = computeCalls s"
  using assms
  by (auto simp: oneInFlight_def scheduleRecompute_def setTimeout_def clearTimeout_def
      split: option.splits)

lemma run_append: "run (xs @ ys) s = run ys (run xs s)"
  by (simp add: run_def)

lemma burst_state:
  assumes "g1 + g2 + g3 + g4 \<le> 10"
  shows "run (burst g1 g2 g3 g4) (idle 50)
         = (idle 50)\<lparr>now := g1 + g2 + g3 + g4, nextId := 6,
                      timeouts := [(5, g1 + g2 + g3 + g4 + 50)], timeoutIdRef := Some 5\<rparr>"
  using assms
  by (simp add: burst_def run_def idle_def scheduleRecompute_def setTimeout_def clearTimeout_def
      fireDueTimeouts_def)

lemma burst_quiet_short:
  assumes "g1 + g2 + g3 + g4 \<le> 10" "q < 50"
  shows "computeCalls (run (burst g1 g2 g3 g4 @ [Wait q, Frame]) (idle 50)) = []"
  using assms
  by (simp add: run_append burst_state)
     (simp add: run_def idle_def fireDueTimeouts_def runAnimationFrames_def)

lemma burst_quiet_long:
  assumes "g1 + g2 + g3 + g4 \<le> 10" "50 \<le> q"
  shows "computeCalls (run (burst g1 g2 g3 g4 @ [Wait q, Frame, Wait r, Frame]) (idle 50))
         = [g1 + g2 + g3 + g4 + q]"
  using assms
  by (simp add: run_append burst_state)
     (simp add: run_def idle_def sched_defs)

lemma step_fixed: "hasRoot (step e s) = hasRoot s \<and> debounceMs (step e s) = debounceMs s"
proof (cases e)
  case Change
  then show ?thesis
    by (simp add: scheduleRecompute_def setTimeout_def clearTimeout_def split: option.splits)
next
  case (Wait d)
  have "hasRoot (fold f xs s') = hasRoot s' \<and> debounceMs (fold f xs s') = debounceMs s'"
    if "\<And>x t. hasRoot (f x t) = hasRoot t \<and> debounceMs (f x t) = debounceMs t"
    for f :: "nat \<times> nat \<Rightarrow> scheduler \<Rightarrow> scheduler" and xs s'
    using that by (induction xs arbitrary: s') simp_all
  moreover have "hasRoot (timeoutCallback (clearTimeout i t)) = hasRoot t
       \<and> debounceMs (timeoutCallback (clearTimeout i t)) = debounceMs t" for i t
    by (simp add: timeoutCallback_def recomputeNow_def clearTimeout_def requestAnimationFrame_def
        cancelAnimationFrame_def split: option.splits)
  ultimately show ?thesis
    using Wait by (simp add: fireDueTimeouts_def split_def)
next
  case Frame
  have "hasRoot (fold f xs s') = hasRoot s' \<and> debounceMs (fold f xs s') = debounceMs s'"
    if "\<And>x t. hasRoot (f x t) = hasRoot t \<and> debounceMs (f x t) = debounceMs t"
    for f :: "nat \<Rightarrow> scheduler \<Rightarrow> scheduler" and xs s'
    using that by (induction xs arbitrary: s') simp_all
  moreover have "hasRoot (frameCallback t) = hasRoot t \<and> debounceMs (frameCallback t) = debounceMs t"
    for t by (simp add: frameCallback_def Let_def)
  ultimately show ?thesis
    using Frame by (simp add: runAnimationFrames_def)
next
  case Teardown
  then show ?thesis
    by (simp add: cleanup_def Let_def clearTimeout_def cancelAnimationFrame_def
        split: option.splits)
qed

lemma run_fixed: "hasRoot (run evs s) = hasRoot s \<and> debounceMs (run evs s) = debounceMs s"
  unfolding run_def by (induction evs arbitrary: s) (simp_all add: step_fixed)

text \<open>
  Claim C8. After any sequence of events at most one timeout and at most one frame
  callback are pending. A change notification to a live hook leaves exactly one pending
  timeout, due one debounce interval after the notification: a timeout that was pending
  is cancelled and restarted, and nothing is computed. Five change notifications within
  10 milliseconds under a debounce interval of 50: no call of \<^verbatim>\<open>computePageBreaks\<close>
  in a frame less than 50 milliseconds after the last notification; exactly one call, in
  the first frame after the 50 milliseconds have passed, and none in a later frame.
\<close>

theorem debounce_coalesces_burst:
  assumes "g1 + g2 + g3 + g4 \<le> 10"
  shows "length (timeouts (run evs (idle d))) \<le> 1
       \<and> length (animationFrames (run evs (idle d))) \<le> 1
       \<and> (\<not> destroyedRef (run evs (idle d)) \<longrightarrow>
            timeouts (step Change (run evs (idle d)))
              = [(nextId (run evs (idle d)), now (run evs (idle d)) + d)]
            \<and> computeCalls (step Change (run evs (idle d))) = computeCalls (run evs (idle d)))
       \<and> (q < 50 \<longrightarrow> computeCalls (run (burst g1 g2 g3 g4 @ [Wait q, Frame]) (idle 50)) = [])
       \<and> (50 \<le> q \<longrightarrow>
            computeCalls (run (burst g1 g2 g3 g4 @ [Wait q, Frame, Wait r, Frame]) (idle 50))
              = [g1 + g2 + g3 + g4 + q])"
proof -
  let ?s = "run evs (idle d)"
  have inv: "oneInFlight ?s"
    by (intro oneInFlight_run oneInFlight_idle)
  have root: "hasRoot ?s" and delay: "debounceMs ?s = d"
    by (simp_all add: run_fixed idle_def)
  have "timeouts (step Change ?s) = [(nextId ?s, now ?s + d)]
        \<and> computeCalls (step Change ?s) = computeCalls ?s" if "\<not> destroyedRef ?s"
    using scheduleRecompute_restarts[OF inv root that] delay by simp
  with oneInFlight_bounds[OF inv] burst_quiet_short[OF assms] burst_quiet_long[OF assms]
  show ?thesis by blast
qed

theorem debounce_coalesces_burst_witness:
  "(2::nat) + 2 + 2 + 2 \<le> 10
   \<and> length (timeouts (run (burst 2 2 2 2) (idle 50))) \<le> 1
   \<and> \<not> destroyedRef (run (burst 2 2 2 2) (idle 50))
   \<and> timeouts (step Change (run (burst 2 2 2 2) (idle 50))) = [(6, 8 + 50)]
   \<and> computeCalls (run (burst 2 2 2 2 @ [Wait 49, Frame]) (idle 50)) = []
   \<and> computeCalls (run (burst 2 2 2 2 @ [Wait 50, Frame, Wait 16, Frame]) (idle 50)) = [58]"
  using debounce_coalesces_burst[of 2 2 2 2 "burst 2 2 2 2" 50 49 16]
        debounce_coalesces_burst[of 2 2 2 2 "burst 2 2 2 2" 50 50 16]
        burst_state[of 2 2 2 2]
  by (simp add: idle_def)

section \<open>The boundaries of the breaks in the arithmetic of doubles\<close>

lemma roundToDouble_exact:
  assumes "2 ^ nat (bitlen \<bar>n\<bar> - 53) dvd n"
  shows "roundToDouble n = n"
proof (cases "bitlen \<bar>n\<bar> - 53 \<le> 0")
  case True
  then show ?thesis by (simp add: roundToDouble_def)
next
  case False
  define k where "k = bitlen \<bar>n\<bar> - 53"
  have k: "0 < k" using False by (simp add: k_def)
  have r: "n mod 2 ^ nat k = 0" using assms by (simp add: k_def)
  have half: "(0::int) < 2 ^ nat (k - 1)" by simp
  have "n div 2 ^ nat k * 2 ^ nat k = n"
    using assms by (simp add: k_def)
  then show ?thesis
    using k r half by (simp add: roundToDouble_def k_def[symmetric] Let_def)
qed

lemma roundToDouble_shift: "roundToDouble (n * 2 ^ j) = roundToDouble n * 2 ^ j"
proof (cases "n = 0")
  case True
  then show ?thesis by (simp add: roundToDouble_def)
next
  case False
  define k where "k = bitlen \<bar>n\<bar> - 53"
  have abs: "\<bar>n * 2 ^ j\<bar> = \<bar>n\<bar> * 2 ^ j" by (simp add: abs_mult)
  have len: "bitlen \<bar>n * 2 ^ j\<bar> - 53 = k + int j"
    using False by (simp add: abs k_def)
  show ?thesis
  proof (cases "k \<le> 0")
    case True
    then have small: "roundToDouble n = n" by (simp add: roundToDouble_def k_def)
    have "nat (k + int j) \<le> j" using True by simp
    then have "(2::int) ^ nat (k + int j) dvd 2 ^ j" by (rule le_imp_power_dvd)
    then have "(2::int) ^ nat (bitlen \<bar>n * 2 ^ j\<bar> - 53) dvd n * 2 ^ j"
      unfolding len by (rule dvd_mult)
    then show ?thesis using small by (simp add: roundToDouble_exact)
  next
    case False
    then have k: "0 < k" by simp
    have pw: "(2::int) ^ nat (k + int j) = 2 ^ nat k * 2 ^ j"
      using k by (simp add: nat_add_distrib power_add)
    have "nat (k + int j - 1) = nat (k - 1) + j"
      using k by linarith
    then have pw1: "(2::int) ^ nat (k + int j - 1) = 2 ^ nat (k - 1) * 2 ^ j"
      by (simp add: power_add)
    have d: "(n * 2 ^ j) div (2 ^ nat k * 2 ^ j) = n div 2 ^ nat k"
      by simp
    have m: "(n * 2 ^ j) mod (2 ^ nat k * 2 ^ j) = (n mod 2 ^ nat k) * 2 ^ j"
      by simp
    have cmp1: "(n mod 2 ^ nat k) * 2 ^ j > 2 ^ nat (k - 1) * (2::int) ^ j
                \<longleftrightarrow> n mod 2 ^ nat k > 2 ^ nat (k - 1)"
      by simp
    have cmp2: "(n mod 2 ^ nat k) * 2 ^ j = 2 ^ nat (k - 1) * (2::int) ^ j
                \<longleftrightarrow> n mod 2 ^ nat k = 2 ^ nat (k - 1)"
      by simp
    have pos: "\<not> k + int j \<le> 0" using k by simp
    show ?thesis
      unfolding roundToDouble_def len k_def[symmetric] Let_def pw pw1 d m cmp1 cmp2
      using k pos by (simp add: mult.assoc)
  qed
qed

lemma floor_dyadic:
  assumes "k \<le> g"
  shows "\<lfloor>real_of_int a / 2 ^ k * 2 ^ g\<rfloor> = a * 2 ^ (g - k)"
proof -
  have "(2::real) ^ g = 2 ^ k * 2 ^ (g - k)"
    using assms by (simp flip: power_add)
  then have "real_of_int a / 2 ^ k * 2 ^ g = real_of_int (a * 2 ^ (g - k))"
    by simp
  then show ?thesis by (simp only: floor_of_int)
qed

lemma jsAdd_dyadic:
  assumes "k \<le> gridBits"
  shows "jsAdd (real_of_int a / 2 ^ k) (real_of_int b / 2 ^ k)
         = real_of_int (roundToDouble (a + b)) / 2 ^ k"
proof -
  have split: "(2::real) ^ gridBits = 2 ^ k * 2 ^ (gridBits - k)"
    using assms by (simp flip: power_add)
  have "a * 2 ^ (gridBits - k) + b * 2 ^ (gridBits - k) = (a + b) * 2 ^ (gridBits - k)"
    by (simp add: distrib_right)
  then have "jsAdd (real_of_int a / 2 ^ k) (real_of_int b / 2 ^ k)
        = real_of_int (roundToDouble (a + b) * 2 ^ (gridBits - k)) / 2 ^ gridBits"
    unfolding jsAdd_def floor_dyadic[OF assms] by (simp only: roundToDouble_shift)
  also have "\<dots> = real_of_int (roundToDouble (a + b)) / 2 ^ k"
    unfolding split by simp
  finally show ?thesis .
qed

lemma roundToDouble_small:
  assumes "\<bar>c\<bar> \<le> 2 ^ 53"
  shows "roundToDouble c = c"
proof (cases "\<bar>c\<bar> = 2 ^ 53")
  case True
  have "bitlen \<bar>c\<bar> = 54"
    unfolding True using bitlen_pow2[of 1 53] by (simp add: compute_bitlen)
  moreover have "(2::int) dvd \<bar>c\<bar>" unfolding True by simp
  then have "(2::int) dvd c" by simp
  ultimately show ?thesis by (intro roundToDouble_exact) simp
next
  case False
  show ?thesis
  proof (cases "c = 0")
    case True
    then show ?thesis by (simp add: roundToDouble_def)
  next
    case nz: False
    then have pos: "0 < \<bar>c\<bar>" by simp
    have "2 ^ nat (bitlen \<bar>c\<bar> - 1) \<le> \<bar>c\<bar>"
      using bitlen_bounds[OF pos] by simp
    also have "\<bar>c\<bar> < 2 ^ 53" using assms False by simp
    finally have lt: "(2::int) ^ nat (bitlen \<bar>c\<bar> - 1) < 2 ^ 53" .
    have "nat (bitlen \<bar>c\<bar> - 1) < 53"
      by (rule power_less_imp_less_exp[OF _ lt]) simp
    then have "bitlen \<bar>c\<bar> - 53 \<le> 0" by simp
    then show ?thesis by (simp add: roundToDouble_def)
  qed
qed

lemma jsAdd_exact_int:
  assumes "x \<in> \<int>" "y \<in> \<int>" "\<bar>x + y\<bar> \<le> 2 ^ 53"
  shows "jsAdd x y = x + y"
proof -
  from assms(1,2) obtain a b where x: "x = real_of_int a" and y: "y = real_of_int b"
    by (auto elim!: Ints_cases)
  have "\<bar>real_of_int (a + b)\<bar> \<le> real_of_int (2 ^ 53)"
    using assms(3) by (simp add: x y)
  then have "\<bar>a + b\<bar> \<le> 2 ^ 53"
    by (simp only: of_int_abs[symmetric] of_int_le_iff)
  then have "roundToDouble (a + b) = a + b" by (rule roundToDouble_small)
  then show ?thesis
    using jsAdd_dyadic[of 0 a b] by (simp add: x y gridBits_def)
qed

lemma accumulated_0: "accumulated add stride base 0 = []"
  by (simp add: accumulated_def)

lemma accumulated_length: "length (accumulated add stride base n) = n"
  by (simp add: accumulated_def)

lemma accumulated_nth:
  "i < n \<Longrightarrow> accumulated add stride base n ! i = ((\<lambda>c. add c stride) ^^ i) base"
  by (simp add: accumulated_def)

lemma accumulated_Suc_front:
  "accumulated add stride base (Suc n) = base # accumulated add stride (add base stride) n"
proof -
  have "(\<lambda>i. ((\<lambda>c. add c stride) ^^ Suc i) base)
        = (\<lambda>i. ((\<lambda>c. add c stride) ^^ i) (add base stride))"
    by (rule ext) (simp only: funpow_Suc_right o_apply)
  then show ?thesis
    unfolding accumulated_def upt_0_Suc_front by (simp add: comp_def del: funpow.simps)
qed

lemma accumulated_append:
  "accumulated add stride base (m + n)
   = accumulated add stride base m
     @ accumulated add stride (((\<lambda>c. add c stride) ^^ m) base) n"
proof (induction m arbitrary: base)
  case 0
  show ?case by (simp add: accumulated_0)
next
  case (Suc m)
  have "accumulated add stride base (Suc m + n)
        = base # accumulated add stride (add base stride) (m + n)"
    using accumulated_Suc_front[of add stride base "m + n"] by simp
  also have "accumulated add stride (add base stride) (m + n)
     = accumulated add stride (add base stride) m
       @ accumulated add stride (((\<lambda>c. add c stride) ^^ m) (add base stride)) n"
    by (rule Suc.IH)
  also have "((\<lambda>c. add c stride) ^^ m) (add base stride) = ((\<lambda>c. add c stride) ^^ Suc m) base"
    by (simp only: funpow_Suc_right o_apply)
  finally show ?case
    by (simp only: accumulated_Suc_front append_Cons)
qed

lemma skipPagesWith_shape:
  assumes "skipPagesWith add topY stride el cpb brs = Some res"
  shows "\<exists>n. fst res = ((\<lambda>c. add c stride) ^^ n) cpb
           \<and> snd res = brs @ map (\<lambda>y. BeforeElement el y) (accumulated add stride cpb n)"
  using assms
proof (induction add topY stride el cpb brs res rule: skipPagesWith.raw_induct[rotated 1, consumes 1])
  case (1 skp add topY stride el cpb brs res)
  show ?case
  proof (cases "topY \<ge> cpb")
    case True
    with 1(2) have "skp add topY stride el (add cpb stride) (brs @ [BeforeElement el cpb]) = Some res"
      by simp
    from 1(1)[OF this] obtain n where n: "fst res = ((\<lambda>c. add c stride) ^^ n) (add cpb stride)"
      "snd res = (brs @ [BeforeElement el cpb])
         @ map (\<lambda>y. BeforeElement el y) (accumulated add stride (add cpb stride) n)"
      by blast
    have a: "fst res = ((\<lambda>c. add c stride) ^^ Suc n) cpb"
      using n(1) by (simp only: funpow_Suc_right o_apply)
    have b: "snd res = brs @ map (\<lambda>y. BeforeElement el y) (accumulated add stride cpb (Suc n))"
      using n(2) by (simp only: accumulated_Suc_front list.map append_assoc append_Cons append_Nil)
    from a b show ?thesis by (intro exI[of _ "Suc n"] conjI)
  next
    case False
    with 1(2) have "res = (cpb, brs)" by simp
    then have "fst res = ((\<lambda>c. add c stride) ^^ 0) cpb
           \<and> snd res = brs @ map (\<lambda>y. BeforeElement el y) (accumulated add stride cpb 0)"
      by (simp add: accumulated_0)
    then show ?thesis by (rule exI)
  qed
qed

lemma blocksLoopWith_Cons_fits:
  assumes "getElementTopBottomY rt b = (topY, bottomY)" "bottomY \<le> cpb"
  shows "blocksLoopWith add rt stride ms (b # bs) cpb brs = blocksLoopWith add rt stride ms bs cpb brs"
  using assms by simp

lemma blocksLoopWith_Cons_break:
  assumes "getElementTopBottomY rt b = (topY, bottomY)" "\<not> bottomY \<le> cpb"
    and "skipPagesWith add topY stride (elem b) cpb brs = Some (boundary, brs1)"
  shows "blocksLoopWith add rt stride ms (b # bs) cpb brs
         = blocksLoopWith add rt stride ms bs (add boundary stride)
             (brs1 @ [closingBreak rt b boundary ms])"
  using assms by (simp add: closingBreak_def split: option.splits prod.splits)

lemma blocksLoopWith_Cons_diverges:
  assumes "getElementTopBottomY rt b = (topY, bottomY)" "\<not> bottomY \<le> cpb"
    and "skipPagesWith add topY stride (elem b) cpb brs = None"
  shows "blocksLoopWith add rt stride ms (b # bs) cpb brs = None"
  using assms by simp

lemma blocksLoopWith_shape:
  assumes "blocksLoopWith add rt stride ms bs cpb brs = Some (cpb', brs')"
  shows "\<exists>new. brs' = brs @ new
           \<and> cpb' = ((\<lambda>c. add c stride) ^^ length new) cpb
           \<and> map pageStartY new = accumulated add stride cpb (length new)"
  using assms
proof (induction bs arbitrary: cpb brs)
  case Nil
  then have "brs' = brs" "cpb' = cpb" by simp_all
  then show ?case by (intro exI[of _ "[]"]) (simp add: accumulated_0)
next
  case (Cons b bs)
  obtain topY bottomY where tb: "getElementTopBottomY rt b = (topY, bottomY)" by force
  show ?case
  proof (cases "bottomY \<le> cpb")
    case True
    with Cons.prems tb have "blocksLoopWith add rt stride ms bs cpb brs = Some (cpb', brs')" by simp
    from Cons.IH[OF this] show ?thesis .
  next
    case False
    have "skipPagesWith add topY stride (elem b) cpb brs \<noteq> None"
      using Cons.prems blocksLoopWith_Cons_diverges[OF tb False] by force
    then obtain boundary brs1 where
      sk: "skipPagesWith add topY stride (elem b) cpb brs = Some (boundary, brs1)"
      by fastforce
    from skipPagesWith_shape[OF sk] obtain n where
      n: "boundary = ((\<lambda>c. add c stride) ^^ n) cpb"
         "brs1 = brs @ map (\<lambda>y. BeforeElement (elem b) y) (accumulated add stride cpb n)"
      by auto
    define final where "final = closingBreak rt b boundary ms"
    have rest: "blocksLoopWith add rt stride ms bs (add boundary stride) (brs1 @ [final])
                = Some (cpb', brs')"
      using Cons.prems blocksLoopWith_Cons_break[OF tb False sk] by (simp add: final_def)
    from Cons.IH[OF this] obtain new where
      g: "brs' = (brs1 @ [final]) @ new"
         "cpb' = ((\<lambda>c. add c stride) ^^ length new) (add boundary stride)"
         "map pageStartY new = accumulated add stride (add boundary stride) (length new)"
      by blast
    define grp where
      "grp = map (\<lambda>y. BeforeElement (elem b) y) (accumulated add stride cpb n) @ [final]"
    have lastY: "pageStartY final = boundary" by (simp add: final_def closingBreak_pageStartY)
    have len: "length grp = Suc n" by (simp add: grp_def accumulated_length)
    have next_boundary: "add boundary stride = ((\<lambda>c. add c stride) ^^ Suc n) cpb"
      by (simp add: n(1))
    have "accumulated add stride cpb (n + 1) = accumulated add stride cpb n @ [boundary]"
      unfolding accumulated_append n(1) by (simp add: accumulated_Suc_front accumulated_0)
    then have ys: "map pageStartY grp = accumulated add stride cpb (Suc n)"
      by (simp add: grp_def lastY comp_def)
    have "accumulated add stride cpb (Suc n + length new)
          = accumulated add stride cpb (Suc n)
            @ accumulated add stride (add boundary stride) (length new)"
      by (simp only: accumulated_append next_boundary)
    with ys g(3) have 3: "map pageStartY (grp @ new)
                          = accumulated add stride cpb (length (grp @ new))"
      by (simp add: len)
    have 1: "brs' = brs @ (grp @ new)" using g(1) n(2) by (simp add: grp_def)
    have "((\<lambda>c. add c stride) ^^ length new) (((\<lambda>c. add c stride) ^^ Suc n) cpb)
          = ((\<lambda>c. add c stride) ^^ (length new + Suc n)) cpb"
      by (simp only: funpow_add o_apply)
    then have 2: "cpb' = ((\<lambda>c. add c stride) ^^ length (grp @ new)) cpb"
      using g(2) by (simp add: next_boundary len add.commute del: funpow.simps)
    show ?thesis
      by (rule exI[of _ "grp @ new"]) (intro conjI 1 2 3)
  qed
qed

lemma computePageBreaksWith_boundaries:
  assumes "computePageBreaksWith add rt options = Some r"
  shows "map pageStartY (breaks r)
         = accumulated add (pageStridePx r) (add (topMarginPx r) (pageHeightPx r)) (length (breaks r))
       \<and> pageStridePx r
         = add (add (add (pageHeightPx r) (topMarginPx r)) (bottomMarginPx r)) (pageGapPx r)
       \<and> pageHeightPx r = opt_pageHeightPx options
       \<and> topMarginPx r = orDefault (opt_topMarginPx options) 0
       \<and> bottomMarginPx r = orDefault (opt_bottomMarginPx options) 0
       \<and> pageGapPx r = orDefault (opt_pageGapPx options) 0"
proof -
  define h where "h = opt_pageHeightPx options"
  define t where "t = orDefault (opt_topMarginPx options) 0"
  define b where "b = orDefault (opt_bottomMarginPx options) 0"
  define g where "g = orDefault (opt_pageGapPx options) 0"
  define s where "s = add (add (add h t) b) g"
  from assms obtain cpb where
    loop: "blocksLoopWith add rt s (orDefault (opt_maxBinarySearchSteps options) 18)
             (visibleBlocks rt options) (add t h) [] = Some (cpb, breaks r)"
    and fields: "pageHeightPx r = h" "topMarginPx r = t" "bottomMarginPx r = b" "pageGapPx r = g"
      "pageStridePx r = s"
    by (auto simp: computePageBreaksWith_def Let_def h_def t_def b_def g_def s_def
        split: option.splits prod.splits)
  from blocksLoopWith_shape[OF loop] have
    "map pageStartY (breaks r) = accumulated add s (add t h) (length (breaks r))"
    by auto
  then show ?thesis
    using fields by (simp add: h_def t_def b_def g_def s_def)
qed

text \<open>At the exact addition the engine with a parameter is the engine above.\<close>

lemma skipPagesWith_exact_Some:
  assumes "skipPagesWith add topY stride el cpb brs = Some res" "add = (+)"
  shows "skipPages topY stride el cpb brs = Some res"
  using assms
proof (induction add topY stride el cpb brs res rule: skipPagesWith.raw_induct[rotated 1, consumes 1])
  case (1 skp add topY stride el cpb brs res)
  show ?case
  proof (cases "topY \<ge> cpb")
    case True
    with 1(2) have "skp add topY stride el (add cpb stride) (brs @ [BeforeElement el cpb]) = Some res"
      by simp
    from 1(1)[OF this 1(3)] show ?thesis
      using True 1(3) by (subst skipPages.simps) simp
  next
    case False
    with 1(2) show ?thesis by (subst skipPages.simps) simp
  qed
qed

lemma skipPages_exact_Some:
  assumes "skipPages topY stride el cpb brs = Some res"
  shows "skipPagesWith (+) topY stride el cpb brs = Some res"
  using assms
proof (induction topY stride el cpb brs res rule: skipPages.raw_induct[rotated 1, consumes 1])
  case (1 skp topY stride el cpb brs res)
  show ?case
  proof (cases "topY \<ge> cpb")
    case True
    with 1(2) have "skp topY stride el (cpb + stride) (brs @ [BeforeElement el cpb]) = Some res"
      by simp
    from 1(1)[OF this] show ?thesis
      using True by (subst skipPagesWith.simps) simp
  next
    case False
    with 1(2) show ?thesis by (subst skipPagesWith.simps) simp
  qed
qed

lemma skipPagesWith_exact:
  "skipPagesWith (+) topY stride el cpb brs = skipPages topY stride el cpb brs"
proof (cases "skipPagesWith (+) topY stride el cpb brs")
  case (Some res)
  then show ?thesis using skipPagesWith_exact_Some[OF Some refl] by simp
next
  case None
  show ?thesis
  proof (cases "skipPages topY stride el cpb brs")
    case (Some res)
    from skipPages_exact_Some[OF this] None show ?thesis by simp
  next
    case n: None
    with None show ?thesis by simp
  qed
qed

lemma blocksLoopWith_exact:
  "blocksLoopWith (+) rt stride ms bs cpb brs = blocksLoop rt stride ms bs cpb brs"
  by (induction bs arbitrary: cpb brs)
     (simp_all add: skipPagesWith_exact split: prod.splits option.splits)

lemma computePageBreaksWith_exact:
  "computePageBreaksWith (+) rt options = computePageBreaks rt options"
  unfolding computePageBreaksWith_def computePageBreaks_def blocksLoopWith_exact
    strideOf_def firstPageBottom_def Let_def ..

lemma jsAdd_iterated_exact:
  assumes "base \<in> \<int>" "stride \<in> \<int>"
    and "\<forall>j\<le>i. \<bar>base + real j * stride\<bar> \<le> 2 ^ 53"
  shows "((\<lambda>c. jsAdd c stride) ^^ i) base = base + real i * stride"
  using assms(3)
proof (induction i)
  case 0
  show ?case by simp
next
  case (Suc i)
  have prev: "((\<lambda>c. jsAdd c stride) ^^ i) base = base + real i * stride"
    using Suc.prems by (intro Suc.IH) simp
  have int: "base + real i * stride \<in> \<int>"
    using assms(1,2) by (intro Ints_add Ints_mult) simp_all
  have sum: "base + real i * stride + stride = base + real (Suc i) * stride"
    by (simp add: distrib_right)
  have "\<bar>base + real (Suc i) * stride\<bar> \<le> 2 ^ 53"
    using Suc.prems by blast
  then have "jsAdd (base + real i * stride) stride = base + real (Suc i) * stride"
    using jsAdd_exact_int[OF int assms(2)] unfolding sum by simp
  then show ?case by (simp add: prev)
qed

lemma jsAdd_integers:
  "x \<in> \<int> \<Longrightarrow> y \<in> \<int> \<Longrightarrow> \<bar>x + y\<bar> \<le> 9007199254740992 \<Longrightarrow> jsAdd x y = x + y"
  using jsAdd_exact_int[of x y] by simp

lemmas engineWith_eval =
  computePageBreaksWith_def visibleBlocks_def orDefault_def
  isVisibleElement_def rect_width_def rect_height_def getElementTopBottomY_def getRootLocalY_def
  findSplitPointWithinBlock_def caretFastPath_def walkTextNodes_def skipPagesWith.simps
  plainRoot_def imageBlock_def letterOptions_def letterResult_def

lemma farBlock_breaks_doubles:
  "computePageBreaksWith jsAdd (plainRoot [farBlock]) letterOptions
   = Some (letterResult [BeforeElement 7 864, BeforeElement 7 1728, BeforeElement 7 2592])"
  by (simp add: engineWith_eval farBlock_def jsAdd_integers)

text \<open>
  Claim C9, as the code has it. Whenever \<^verbatim>\<open>computePageBreaks\<close>, adding as doubles
  add, returns for a configuration of integers, and the partial sums of the stride and
  the boundaries \<open>topMarginPx + pageHeightPx + i * pageStridePx\<close> of the breaks stay
  within \<open>2^53\<close> in magnitude, the stride of the result is
  \<open>pageHeightPx + topMarginPx + bottomMarginPx + pageGapPx\<close> and the \<open>i\<close>-th break
  (from 0) starts its page at exactly \<open>topMarginPx + pageHeightPx + i * pageStridePx\<close>,
  with no boundary skipped; for a positive stride the boundaries are strictly increasing,
  so none is repeated.
\<close>

theorem computePageBreaks_integer_progression:
  assumes "computePageBreaksWith jsAdd rt options = Some r"
    and "pageHeightPx r \<in> \<int>" "topMarginPx r \<in> \<int>" "bottomMarginPx r \<in> \<int>"
        "pageGapPx r \<in> \<int>"
    and "\<bar>pageHeightPx r + topMarginPx r\<bar> \<le> 2 ^ 53"
        "\<bar>pageHeightPx r + topMarginPx r + bottomMarginPx r\<bar> \<le> 2 ^ 53"
        "\<bar>pageHeightPx r + topMarginPx r + bottomMarginPx r + pageGapPx r\<bar> \<le> 2 ^ 53"
    and "\<forall>i < length (breaks r).
           \<bar>topMarginPx r + pageHeightPx r
              + real i * (pageHeightPx r + topMarginPx r + bottomMarginPx r + pageGapPx r)\<bar>
           \<le> 2 ^ 53"
  shows "pageStridePx r = pageHeightPx r + topMarginPx r + bottomMarginPx r + pageGapPx r
       \<and> (\<forall>i < length (breaks r).
             pageStartY (breaks r ! i)
             = topMarginPx r + pageHeightPx r + real i * pageStridePx r)
       \<and> (0 < pageStridePx r \<longrightarrow> sorted_wrt (<) (map pageStartY (breaks r)))"
proof -
  define h t b g where "h = pageHeightPx r" and "t = topMarginPx r"
    and "b = bottomMarginPx r" and "g = pageGapPx r"
  define s where "s = h + t + b + g"
  note ints = assms(2-5)[folded h_def t_def b_def g_def]
  note small = assms(6-8)[folded h_def t_def b_def g_def]
  note within = assms(9)[folded h_def t_def b_def g_def, folded s_def]
  from computePageBreaksWith_boundaries[OF assms(1)] have
    ys: "map pageStartY (breaks r)
         = accumulated jsAdd (pageStridePx r) (jsAdd t h) (length (breaks r))"
    and st: "pageStridePx r = jsAdd (jsAdd (jsAdd h t) b) g"
    by (simp_all add: h_def t_def b_def g_def)
  have "jsAdd h t = h + t"
    using ints small by (intro jsAdd_exact_int) simp_all
  moreover have "jsAdd (h + t) b = h + t + b"
    using ints small by (intro jsAdd_exact_int Ints_add) simp_all
  moreover have "jsAdd (h + t + b) g = h + t + b + g"
    using ints small by (intro jsAdd_exact_int Ints_add) simp_all
  ultimately have stride: "pageStridePx r = s"
    using st by (simp add: s_def)
  have sint: "s \<in> \<int>"
    unfolding s_def using ints by (intro Ints_add)
  have nth: "pageStartY (breaks r ! i) = t + h + real i * s" if i: "i < length (breaks r)" for i
  proof -
    have "\<bar>t + h + real 0 * s\<bar> \<le> 2 ^ 53"
      using within i by (metis (no_types) gr_implies_not0 neq0_conv)
    then have "\<bar>t + h\<bar> \<le> 2 ^ 53" by simp
    then have base: "jsAdd t h = t + h"
      using ints by (intro jsAdd_exact_int) simp_all
    have "pageStartY (breaks r ! i) = map pageStartY (breaks r) ! i"
      using i by simp
    also have "\<dots> = ((\<lambda>c. jsAdd c s) ^^ i) (t + h)"
      unfolding ys stride base using i by (rule accumulated_nth)
    also have "\<dots> = t + h + real i * s"
    proof (rule jsAdd_iterated_exact)
      show "t + h \<in> \<int>" using ints by (intro Ints_add)
      show "s \<in> \<int>" by (rule sint)
      show "\<forall>j\<le>i. \<bar>t + h + real j * s\<bar> \<le> 2 ^ 53"
        using within i by auto
    qed
    finally show ?thesis .
  qed
  have "sorted_wrt (<) (map pageStartY (breaks r))" if "0 < s"
  proof -
    have "map pageStartY (breaks r) = boundaries (t + h) s (length (breaks r))"
      by (rule nth_equalityI) (simp_all add: boundaries_length boundaries_nth nth)
    then show ?thesis
      using boundaries_strictly_increasing[OF that] by simp
  qed
  with nth stride show ?thesis
    by (simp add: h_def t_def b_def g_def s_def)
qed

theorem computePageBreaks_integer_progression_witness:
  "computePageBreaksWith jsAdd (plainRoot [farBlock]) letterOptions
     = Some (letterResult [BeforeElement 7 864, BeforeElement 7 1728, BeforeElement 7 2592])
   \<and> pageHeightPx (letterResult []) \<in> \<int>
   \<and> \<bar>pageHeightPx (letterResult []) + topMarginPx (letterResult [])
        + bottomMarginPx (letterResult []) + pageGapPx (letterResult [])\<bar> \<le> 2 ^ 53
   \<and> \<bar>0 + 864 + real 2 * (864::real)\<bar> \<le> 2 ^ 53
   \<and> pageStartY ([BeforeElement 7 864, BeforeElement 7 1728, BeforeElement 7 2592] ! 2)
       = 0 + 864 + real 2 * 864
   \<and> 0 < pageStridePx (letterResult [])
   \<and> sorted_wrt (<)
         (map pageStartY [BeforeElement 7 864, BeforeElement 7 1728, BeforeElement 7 2592])"
  using computePageBreaks_integer_progression[OF farBlock_breaks_doubles] farBlock_breaks_doubles
  by (simp add: letterResult_def)

lemmas round_eval = roundToDouble_def compute_bitlen Let_def gridBits_def

lemma tenth_plus_zero: "jsAdd tenth 0 = tenth" "jsAdd 0 tenth = tenth"
  using jsAdd_dyadic[of 55 3602879701896397 0] jsAdd_dyadic[of 55 0 3602879701896397]
  by (simp_all add: round_eval tenth_def)

lemma tenth_steps:
  "jsAdd (3602879701896397 / 36028797018963968) tenth = 3602879701896397 / 18014398509481984"
  "jsAdd (3602879701896397 / 18014398509481984) tenth = 1351079888211149 / 4503599627370496"
  "jsAdd (1351079888211149 / 4503599627370496) tenth = 3602879701896397 / 9007199254740992"
  "jsAdd (3602879701896397 / 9007199254740992) tenth = 1 / 2"
  "jsAdd (1 / 2) tenth = 5404319552844595 / 9007199254740992"
  "jsAdd (5404319552844595 / 9007199254740992) tenth = 3152519739159347 / 4503599627370496"
  "jsAdd (3152519739159347 / 4503599627370496) tenth = 7205759403792793 / 9007199254740992"
  "jsAdd (7205759403792793 / 9007199254740992) tenth = 2026619832316723 / 2251799813685248"
  using jsAdd_dyadic[of 55 3602879701896397 3602879701896397]
        jsAdd_dyadic[of 55 7205759403792794 3602879701896397]
        jsAdd_dyadic[of 55 10808639105689192 3602879701896397]
        jsAdd_dyadic[of 55 14411518807585588 3602879701896397]
        jsAdd_dyadic[of 55 18014398509481984 3602879701896397]
        jsAdd_dyadic[of 55 21617278211378380 3602879701896397]
        jsAdd_dyadic[of 55 25220157913274776 3602879701896397]
        jsAdd_dyadic[of 55 28823037615171172 3602879701896397]
  by (simp_all add: round_eval tenth_def)

lemma tenth_breaks:
  "computePageBreaksWith jsAdd (plainRoot [imageBlock 1 (3 / 4) 1]) tenthOptions = Some tenthResult"
  by (simp add: engineWith_eval Let_def tenthOptions_def tenthResult_def tenthBreaks_def tenth_def
      tenth_plus_zero[unfolded tenth_def] tenth_steps[unfolded tenth_def])

text \<open>
  With the double nearest to 0.1 as page height the code adds 0.1 seven times to 0.1 and
  reaches 0.7999999999999999, one unit in the last place below the double 0.8, which is
  eight times the page height: the eighth break is not at
  \<open>topMarginPx + pageHeightPx + 7 * pageStridePx\<close>.
\<close>

theorem accumulated_boundary_counterexample:
  "computePageBreaksWith jsAdd (plainRoot [imageBlock 1 (3 / 4) 1]) tenthOptions = Some tenthResult
   \<and> pageStridePx tenthResult
       = pageHeightPx tenthResult + topMarginPx tenthResult + bottomMarginPx tenthResult
         + pageGapPx tenthResult
   \<and> pageStartY (breaks tenthResult ! 7)
       \<noteq> topMarginPx tenthResult + pageHeightPx tenthResult + real 7 * pageStridePx tenthResult"
  using tenth_breaks by (simp add: tenthResult_def tenthBreaks_def tenth_def)

end
